theory Spec2Isabelle
  imports Main
begin

section \<open>Values, errors and configuration\<close>

text \<open>
  The exceptions the connector can meet. Every \<^verbatim>\<open>raise\<close> of the Python source and of
  the library calls it makes is a value of this type; \<open>TransportError\<close> stands for whatever
  \<^verbatim>\<open>requests.get\<close> raises (connection failure, timeout).
\<close>

datatype error =
  ValueError | KeyError | AttributeError | TypeError | OverflowError | TransportError

text \<open>
  The Python values that can be handed to \<^verbatim>\<open>query\<close> as its \<^verbatim>\<open>parameters\<close> argument,
  and that can be stored under a key of that dictionary. A dictionary is an association
  list from keys to values.
\<close>

datatype pyval =
  PNone
  | PBool bool
  | PInt int
  | PStr string
  | PList "pyval list"
  | PDict "(pyval \<times> pyval) list"

text \<open>Python truthiness: \<^verbatim>\<open>bool(v)\<close>.\<close>

fun truthy :: "pyval \<Rightarrow> bool" where
  "truthy PNone = False"
| "truthy (PBool b) = b"
| "truthy (PInt i) = (i \<noteq> 0)"
| "truthy (PStr s) = (s \<noteq> [])"
| "truthy (PList xs) = (xs \<noteq> [])"
| "truthy (PDict kvs) = (kvs \<noteq> [])"

text \<open>\<^verbatim>\<open>isinstance(v, dict)\<close>.\<close>

fun is_dict :: "pyval \<Rightarrow> bool" where
  "is_dict (PDict kvs) = True"
| "is_dict _ = False"

text \<open>
  The number a value stands for in an order comparison with an integer
  (\<^verbatim>\<open>n >= v\<close>, \<^verbatim>\<open>n <= v\<close>): integers and booleans compare, every other value of this
  universe raises \<^verbatim>\<open>TypeError\<close>.
\<close>

fun int_of :: "pyval \<Rightarrow> error + int" where
  "int_of (PInt i) = Inr i"
| "int_of (PBool b) = Inr (if b then 1 else 0)"
| "int_of _ = Inl TypeError"

definition DEFAULT_OLDNESS_SECONDS :: pyval where
  "DEFAULT_OLDNESS_SECONDS = PInt 360"

definition DEFAULT_MAXIMUM_ITEMS :: pyval where
  "DEFAULT_MAXIMUM_ITEMS = PInt 25"

definition DEFAULT_MIN_POST_LENGTH :: pyval where
  "DEFAULT_MIN_POST_LENGTH = PInt 10"

text \<open>
  \<^verbatim>\<open>d.get(key, default)\<close>. It is written with an error result because the source wraps
  each call in \<^verbatim>\<open>try ... except KeyError\<close>; \<^verbatim>\<open>dict.get\<close> itself never raises. Called on
  a value that is not a dictionary it is an \<^verbatim>\<open>AttributeError\<close>.
\<close>

fun dict_get :: "pyval \<Rightarrow> pyval \<Rightarrow> pyval \<Rightarrow> error + pyval" where
  "dict_get (PDict kvs) k dflt = Inr (case map_of kvs k of None \<Rightarrow> dflt | Some v \<Rightarrow> v)"
| "dict_get _ k dflt = Inl AttributeError"

text \<open>
  \<^verbatim>\<open>try: x = parameters.get(key, default)  except KeyError: x = default\<close>. Any other
  exception is not caught and leaves the function.
\<close>

definition get_or_default :: "pyval \<Rightarrow> string \<Rightarrow> pyval \<Rightarrow> error + pyval" where
  "get_or_default parameters key dflt =
     (case dict_get parameters (PStr key) dflt of
        Inl KeyError \<Rightarrow> Inr dflt
      | Inl e \<Rightarrow> Inl e
      | Inr v \<Rightarrow> Inr v)"

definition read_parameters :: "pyval \<Rightarrow> error + (pyval \<times> pyval \<times> pyval)" where
  "read_parameters parameters =
     (if truthy parameters \<and> is_dict parameters then
        (case get_or_default parameters ''max_oldness_seconds'' DEFAULT_OLDNESS_SECONDS of
           Inl e \<Rightarrow> Inl e
         | Inr max_oldness_seconds \<Rightarrow>
        (case get_or_default parameters ''maximum_items_to_collect'' DEFAULT_MAXIMUM_ITEMS of
           Inl e \<Rightarrow> Inl e
         | Inr maximum_items_to_collect \<Rightarrow>
        (case get_or_default parameters ''min_post_length'' DEFAULT_MIN_POST_LENGTH of
           Inl e \<Rightarrow> Inl e
         | Inr min_post_length \<Rightarrow>
             Inr (max_oldness_seconds, maximum_items_to_collect, min_post_length))))
      else Inr (DEFAULT_OLDNESS_SECONDS, DEFAULT_MAXIMUM_ITEMS, DEFAULT_MIN_POST_LENGTH))"

text \<open>The value a dictionary holds under a string key, or the default.\<close>

definition value_or :: "(pyval \<times> pyval) list \<Rightarrow> string \<Rightarrow> pyval \<Rightarrow> pyval" where
  "value_or kvs key dflt = (case map_of kvs (PStr key) of None \<Rightarrow> dflt | Some v \<Rightarrow> v)"

section \<open>Strings and the boilerplate pattern\<close>

text \<open>
  Strings are lists of 8-bit characters, read as the code points 0 to 255 of a Python
  string. \<^verbatim>\<open>s.lstrip(chars)\<close> removes from the left of \<open>s\<close> every character that occurs
  in \<open>chars\<close>, until the first character that does not.
\<close>

definition lstrip :: "string \<Rightarrow> string \<Rightarrow> string" where
  "lstrip chars s = dropWhile (\<lambda>c. c \<in> set chars) s"

text \<open>Removal of a fixed prefix, the operation the specification describes.\<close>

definition remove_prefix :: "string \<Rightarrow> string \<Rightarrow> string" where
  "remove_prefix p s = (if take (length p) s = p then drop (length p) s else s)"

definition newline :: char where
  "newline = CHR 0x0A"

text \<open>
  The class \<^verbatim>\<open>\w\<close> of a Python \<^verbatim>\<open>str\<close> pattern on the code points below 256: the
  alphanumeric characters (\<^verbatim>\<open>str.isalnum\<close>) and the underscore.
\<close>

definition is_word_char :: "char \<Rightarrow> bool" where
  "is_word_char c =
     (let n = (of_char c :: nat) in
        (48 \<le> n \<and> n \<le> 57) \<or> (65 \<le> n \<and> n \<le> 90) \<or> n = 95 \<or> (97 \<le> n \<and> n \<le> 122)
        \<or> n = 170 \<or> n = 178 \<or> n = 179 \<or> n = 181 \<or> n = 185 \<or> n = 186
        \<or> (188 \<le> n \<and> n \<le> 190) \<or> (192 \<le> n \<and> n \<le> 214) \<or> (216 \<le> n \<and> n \<le> 246)
        \<or> 248 \<le> n)"

text \<open>
  Regular expressions over characters, as far as \<^verbatim>\<open>REGEX_PATTERN\<close> needs them, and a
  matcher by derivatives: \<open>matches r s\<close> holds when the whole of \<open>s\<close> is in the language
  of \<open>r\<close>.
\<close>

datatype rexp = Nul | Eps | Chr char | WordCh | Cat rexp rexp | Alt rexp rexp | Star rexp

fun nullable :: "rexp \<Rightarrow> bool" where
  "nullable Nul = False"
| "nullable Eps = True"
| "nullable (Chr c) = False"
| "nullable WordCh = False"
| "nullable (Cat r s) = (nullable r \<and> nullable s)"
| "nullable (Alt r s) = (nullable r \<or> nullable s)"
| "nullable (Star r) = True"

fun deriv :: "char \<Rightarrow> rexp \<Rightarrow> rexp" where
  "deriv c Nul = Nul"
| "deriv c Eps = Nul"
| "deriv c (Chr d) = (if c = d then Eps else Nul)"
| "deriv c WordCh = (if is_word_char c then Eps else Nul)"
| "deriv c (Cat r s) =
     (if nullable r then Alt (Cat (deriv c r) s) (deriv c s) else Cat (deriv c r) s)"
| "deriv c (Alt r s) = Alt (deriv c r) (deriv c s)"
| "deriv c (Star r) = Cat (deriv c r) (Star r)"

fun matches :: "rexp \<Rightarrow> string \<Rightarrow> bool" where
  "matches r [] = nullable r"
| "matches r (c # cs) = matches (deriv c r) cs"

text \<open>A literal string, \<^verbatim>\<open>r+\<close> and \<^verbatim>\<open>(r)?\<close>.\<close>

definition rx_lit :: "string \<Rightarrow> rexp" where
  "rx_lit s = foldr (\<lambda>c r. Cat (Chr c) r) s Eps"

definition rx_plus :: "rexp \<Rightarrow> rexp" where
  "rx_plus r = Cat r (Star r)"

definition rx_opt :: "rexp \<Rightarrow> rexp" where
  "rx_opt r = Alt r Eps"

text \<open>
  \<^verbatim>\<open>REGEX_PATTERN = r"^More on \w+(:)?$"\<close>, without its two anchors, which
  \<open>re_match\<close> below accounts for.
\<close>

definition REGEX_PATTERN :: rexp where
  "REGEX_PATTERN = Cat (rx_lit ''More on '') (Cat (rx_plus WordCh) (rx_opt (Chr CHR '':'')))"

text \<open>
  \<^verbatim>\<open>re.match(pattern, s)\<close> as a truth value, for a pattern of the form \<^verbatim>\<open>^r$\<close>:
  \<^verbatim>\<open>re.match\<close> anchors at the start, and \<^verbatim>\<open>$\<close> matches at the end of the string or just
  before a newline that ends it.
\<close>

definition re_match :: "rexp \<Rightarrow> string \<Rightarrow> bool" where
  "re_match r s = (matches r s \<or> (s \<noteq> [] \<and> last s = newline \<and> matches r (butlast s)))"

text \<open>The language of a regular expression, to state what the matcher accepts.\<close>

inductive_set star :: "string set \<Rightarrow> string set" for A :: "string set" where
  star_nil: "[] \<in> star A"
| star_app: "u \<in> A \<Longrightarrow> v \<in> star A \<Longrightarrow> u @ v \<in> star A"

fun lang :: "rexp \<Rightarrow> string set" where
  "lang Nul = {}"
| "lang Eps = {[]}"
| "lang (Chr c) = {[c]}"
| "lang WordCh = {[c] | c. is_word_char c}"
| "lang (Cat r s) = {u @ v | u v. u \<in> lang r \<and> v \<in> lang s}"
| "lang (Alt r s) = lang r \<union> lang s"
| "lang (Star r) = star (lang r)"

section \<open>The article body\<close>

text \<open>
  A direct child element of the content container, as \<^verbatim>\<open>findChildren(recursive=False)\<close>
  returns it: its tag name and its text.
\<close>

record element =
  el_name :: string
  el_text :: string

text \<open>
  The loop over \<^verbatim>\<open>content_paragraphs\<close> of \<^verbatim>\<open>request_content_with_timeout\<close>, with the
  string built so far as accumulator. A \<^verbatim>\<open>break\<close> returns the accumulator.
\<close>

fun content_loop :: "element list \<Rightarrow> string \<Rightarrow> string" where
  "content_loop [] content = content"
| "content_loop (el # els) content =
     (if el_name el = ''h2'' then content
      else if el_name el \<noteq> ''figure'' \<and> el_text el \<noteq> [] then
        (if re_match REGEX_PATTERN (el_text el) then content
         else content_loop els (content @ el_text el @ [newline]))
      else content_loop els content)"

definition extract_content :: "element list \<Rightarrow> string" where
  "extract_content content_paragraphs = content_loop content_paragraphs []"

section \<open>Dates\<close>

text \<open>
  A \<^verbatim>\<open>datetime\<close> object. Python keeps its fields within the ranges of
  \<open>valid_datetime\<close>; the constructor raises \<^verbatim>\<open>ValueError\<close> outside them.
\<close>

record datetime =
  dt_year :: nat
  dt_month :: nat
  dt_day :: nat
  dt_hour :: nat
  dt_minute :: nat
  dt_second :: nat
  dt_micro :: nat

definition is_leap :: "nat \<Rightarrow> bool" where
  "is_leap y = (y mod 4 = 0 \<and> (y mod 100 \<noteq> 0 \<or> y mod 400 = 0))"

definition days_in_month :: "nat \<Rightarrow> nat \<Rightarrow> nat" where
  "days_in_month y m =
     (if m = 2 then (if is_leap y then 29 else 28)
      else if m = 4 \<or> m = 6 \<or> m = 9 \<or> m = 11 then 30 else 31)"

text \<open>The proleptic Gregorian ordinal of a date, day 1 being 1 January of year 1.\<close>

definition days_before_year :: "nat \<Rightarrow> nat" where
  "days_before_year y = (y - 1) * 365 + (y - 1) div 4 - (y - 1) div 100 + (y - 1) div 400"

definition days_before_month :: "nat \<Rightarrow> nat \<Rightarrow> nat" where
  "days_before_month y m =
     [0, 31, 59, 90, 120, 151, 181, 212, 243, 273, 304, 334] ! (m - 1)
       + (if 2 < m \<and> is_leap y then 1 else 0)"

definition ymd2ord :: "nat \<Rightarrow> nat \<Rightarrow> nat \<Rightarrow> nat" where
  "ymd2ord y m d = days_before_year y + days_before_month y m + d"

definition valid_datetime :: "datetime \<Rightarrow> bool" where
  "valid_datetime t =
     (1 \<le> dt_year t \<and> dt_year t \<le> 9999 \<and> 1 \<le> dt_month t \<and> dt_month t \<le> 12
      \<and> 1 \<le> dt_day t \<and> dt_day t \<le> days_in_month (dt_year t) (dt_month t)
      \<and> dt_hour t < 24 \<and> dt_minute t < 60 \<and> dt_second t < 60 \<and> dt_micro t < 1000000)"

definition make_datetime :: "nat \<Rightarrow> nat \<Rightarrow> nat \<Rightarrow> nat \<Rightarrow> nat \<Rightarrow> nat \<Rightarrow> error + datetime" where
  "make_datetime y m d h mi s =
     (let t = \<lparr>dt_year = y, dt_month = m, dt_day = d, dt_hour = h, dt_minute = mi,
                dt_second = s, dt_micro = 0\<rparr>
      in if valid_datetime t then Inr t else Inl ValueError)"

text \<open>
  The seconds from the origin of the calendar to a date and time, and the value of
  \<^verbatim>\<open>(a - b).total_seconds()\<close> for two datetimes without microseconds, as \<^verbatim>\<open>strptime\<close>
  returns them with the formats used here.
\<close>

definition to_seconds :: "datetime \<Rightarrow> int" where
  "to_seconds t =
     int (ymd2ord (dt_year t) (dt_month t) (dt_day t)) * 86400
       + int (3600 * dt_hour t + 60 * dt_minute t + dt_second t)"

definition total_seconds_between :: "datetime \<Rightarrow> datetime \<Rightarrow> int" where
  "total_seconds_between a b = to_seconds a - to_seconds b"

text \<open>The microseconds from the origin of the calendar to a date and time: the exact time.\<close>

definition to_micros :: "datetime \<Rightarrow> int" where
  "to_micros t = to_seconds t * 1000000 + int (dt_micro t)"

subsection \<open>Parsing: \<^verbatim>\<open>datetime.strptime\<close>\<close>

text \<open>
  \<^verbatim>\<open>strptime\<close> turns its format into a regular expression with one named group for each
  directive, compiles it case-insensitively, takes the first match of a prefix of the input
  (alternatives tried from left to right, with backtracking) and raises \<^verbatim>\<open>ValueError\<close>
  when there is none or when input remains after it. A parser here returns all its matches
  on a prefix of the input, in the order in which the backtracking matcher would try them,
  each with the value read and the rest of the input.
\<close>

type_synonym 'a parser = "string \<Rightarrow> ('a \<times> string) list"

definition ret :: "'a \<Rightarrow> 'a parser" where
  "ret a s = [(a, s)]"

definition seq :: "'a parser \<Rightarrow> ('a \<Rightarrow> 'b parser) \<Rightarrow> 'b parser" where
  "seq p f s = concat (map (\<lambda>(a, r). f a r) (p s))"

definition alt :: "'a parser \<Rightarrow> 'a parser \<Rightarrow> 'a parser" where
  "alt p q s = p s @ q s"

text \<open>One decimal digit between \<open>lo\<close> and \<open>hi\<close>, as in \<^verbatim>\<open>[0-5]\<close>; its value.\<close>

definition digit :: "nat \<Rightarrow> nat \<Rightarrow> nat parser" where
  "digit lo hi s =
     (case s of [] \<Rightarrow> []
      | c # r \<Rightarrow> if 48 + lo \<le> (of_char c :: nat) \<and> (of_char c :: nat) \<le> 48 + hi
                 then [(of_char c - 48, r)] else [])"

definition pair2 :: "nat parser \<Rightarrow> nat parser \<Rightarrow> nat parser" where
  "pair2 p q = seq p (\<lambda>a. seq q (\<lambda>b. ret (10 * a + b)))"

text \<open>A literal character and a literal string of the format, matched without regard to case.\<close>

definition lower_code :: "nat \<Rightarrow> nat" where
  "lower_code n = (if 65 \<le> n \<and> n \<le> 90 then n + 32 else n)"

definition ichr :: "char \<Rightarrow> unit parser" where
  "ichr x s =
     (case s of [] \<Rightarrow> []
      | c # r \<Rightarrow> if lower_code (of_char c) = lower_code (of_char x) then [((), r)] else [])"

fun istr :: "string \<Rightarrow> unit parser" where
  "istr [] = ret ()"
| "istr (x # xs) = seq (ichr x) (\<lambda>_. istr xs)"

text \<open>
  A blank of the format: \<^verbatim>\<open>\s+\<close>, one or more whitespace characters, the longest run
  first.
\<close>

definition is_space :: "char \<Rightarrow> bool" where
  "is_space c =
     (let n = (of_char c :: nat) in
        (9 \<le> n \<and> n \<le> 13) \<or> (28 \<le> n \<and> n \<le> 32) \<or> n = 133 \<or> n = 160)"

definition spaces :: "unit parser" where
  "spaces s = map (\<lambda>k. ((), drop k s)) (rev [1 ..< Suc (length (takeWhile is_space s))])"

text \<open>
  The groups of the directives: \<^verbatim>\<open>%Y\<close> is \<^verbatim>\<open>\d\d\d\d\<close>, \<^verbatim>\<open>%m\<close> and \<^verbatim>\<open>%I\<close> are
  \<^verbatim>\<open>1[0-2]|0[1-9]|[1-9]\<close>, \<^verbatim>\<open>%d\<close> is \<^verbatim>\<open>3[0-1]|[1-2]\d|0[1-9]|[1-9]| [1-9]\<close>, \<^verbatim>\<open>%H\<close> is
  \<^verbatim>\<open>2[0-3]|[0-1]\d|\d\<close>, \<^verbatim>\<open>%M\<close> is \<^verbatim>\<open>[0-5]\d|\d\<close>, \<^verbatim>\<open>%S\<close> is \<^verbatim>\<open>6[0-1]|[0-5]\d|\d\<close>,
  \<^verbatim>\<open>%b\<close> is the alternative of the abbreviated month names and \<^verbatim>\<open>%p\<close> is \<^verbatim>\<open>am|pm\<close>
  (English names, as in the C locale).
\<close>

definition re_Y :: "nat parser" where
  "re_Y = seq (digit 0 9) (\<lambda>a. seq (digit 0 9) (\<lambda>b. seq (digit 0 9) (\<lambda>c. seq (digit 0 9)
            (\<lambda>d. ret (1000 * a + 100 * b + 10 * c + d)))))"

definition re_m :: "nat parser" where
  "re_m = alt (pair2 (digit 1 1) (digit 0 2)) (alt (pair2 (digit 0 0) (digit 1 9)) (digit 1 9))"

definition re_d :: "nat parser" where
  "re_d = alt (pair2 (digit 3 3) (digit 0 1)) (alt (pair2 (digit 1 2) (digit 0 9))
            (alt (pair2 (digit 0 0) (digit 1 9)) (alt (digit 1 9)
              (seq (ichr CHR '' '') (\<lambda>_. digit 1 9)))))"

definition re_H :: "nat parser" where
  "re_H = alt (pair2 (digit 2 2) (digit 0 3)) (alt (pair2 (digit 0 1) (digit 0 9)) (digit 0 9))"

definition re_I :: "nat parser" where
  "re_I = alt (pair2 (digit 1 1) (digit 0 2)) (alt (pair2 (digit 0 0) (digit 1 9)) (digit 1 9))"

definition re_M :: "nat parser" where
  "re_M = alt (pair2 (digit 0 5) (digit 0 9)) (digit 0 9)"

definition re_S :: "nat parser" where
  "re_S = alt (pair2 (digit 6 6) (digit 0 1)) (alt (pair2 (digit 0 5) (digit 0 9)) (digit 0 9))"

definition month_abbr :: "(string \<times> nat) list" where
  "month_abbr = [(''Jan'', 1), (''Feb'', 2), (''Mar'', 3), (''Apr'', 4), (''May'', 5), (''Jun'', 6),
                 (''Jul'', 7), (''Aug'', 8), (''Sep'', 9), (''Oct'', 10), (''Nov'', 11), (''Dec'', 12)]"

fun one_of :: "(string \<times> 'a) list \<Rightarrow> 'a parser" where
  "one_of [] = (\<lambda>s. [])"
| "one_of ((w, v) # ws) = alt (seq (istr w) (\<lambda>_. ret v)) (one_of ws)"

definition re_b :: "nat parser" where
  "re_b = one_of month_abbr"

definition re_p :: "bool parser" where
  "re_p = one_of [(''AM'', False), (''PM'', True)]"

text \<open>The format \<^verbatim>\<open>"%b. %d, %Y %I:%M %p"\<close> of the site.\<close>

definition site_regex :: "(nat \<times> nat \<times> nat \<times> nat \<times> nat \<times> bool) parser" where
  "site_regex =
     seq re_b (\<lambda>mon. seq (ichr CHR ''.'') (\<lambda>_. seq spaces (\<lambda>_.
     seq re_d (\<lambda>d. seq (ichr CHR '','') (\<lambda>_. seq spaces (\<lambda>_.
     seq re_Y (\<lambda>y. seq spaces (\<lambda>_.
     seq re_I (\<lambda>h. seq (ichr CHR '':'') (\<lambda>_.
     seq re_M (\<lambda>mi. seq spaces (\<lambda>_.
     seq re_p (\<lambda>pm. ret (mon, d, y, h, mi, pm))))))))))))))"

text \<open>The canonical format \<^verbatim>\<open>"%Y-%m-%dT%H:%M:%S.00Z"\<close>.\<close>

definition canonical_regex :: "(nat \<times> nat \<times> nat \<times> nat \<times> nat \<times> nat) parser" where
  "canonical_regex =
     seq re_Y (\<lambda>y. seq (ichr CHR ''-'') (\<lambda>_.
     seq re_m (\<lambda>m. seq (ichr CHR ''-'') (\<lambda>_.
     seq re_d (\<lambda>d. seq (ichr CHR ''T'') (\<lambda>_.
     seq re_H (\<lambda>h. seq (ichr CHR '':'') (\<lambda>_.
     seq re_M (\<lambda>mi. seq (ichr CHR '':'') (\<lambda>_.
     seq re_S (\<lambda>s. seq (istr ''.00Z'') (\<lambda>_.
     ret (y, m, d, h, mi, s)))))))))))))"

text \<open>
  The first match decides: no match is \<^verbatim>\<open>ValueError\<close> (the data does not match the
  format), and so is a first match that leaves input (unconverted data remains).
\<close>

definition first_match :: "'a parser \<Rightarrow> string \<Rightarrow> error + 'a" where
  "first_match p s =
     (case p s of
        [] \<Rightarrow> Inl ValueError
      | (v, rest) # _ \<Rightarrow> if rest = [] then Inr v else Inl ValueError)"

text \<open>The hour of the day from the 12-hour clock and the AM/PM mark.\<close>

definition hour24 :: "nat \<Rightarrow> bool \<Rightarrow> nat" where
  "hour24 h pm = (if pm then (if h \<noteq> 12 then h + 12 else h) else (if h = 12 then 0 else h))"

definition strptime_site :: "string \<Rightarrow> error + datetime" where
  "strptime_site s =
     (case first_match site_regex s of
        Inl e \<Rightarrow> Inl e
      | Inr (mon, d, y, h, mi, pm) \<Rightarrow> make_datetime y mon d (hour24 h pm) mi 0)"

definition strptime_canonical :: "string \<Rightarrow> error + datetime" where
  "strptime_canonical s =
     (case first_match canonical_regex s of
        Inl e \<Rightarrow> Inl e
      | Inr (y, m, d, h, mi, sec) \<Rightarrow> make_datetime y m d h mi sec)"

subsection \<open>Formatting: \<^verbatim>\<open>strftime\<close>\<close>

text \<open>
  \<^verbatim>\<open>strftime("%Y-%m-%dT%H:%M:%S.00Z")\<close>: the month, the day, the hour, the minutes and the
  seconds on two digits, zero-padded; the microseconds are not printed. \<^verbatim>\<open>%Y\<close> is the
  year as a decimal number, which the C library under the connector prints without
  padding: four digits from the year 1000 on, fewer before (\<^verbatim>\<open>999\<close> for the year 999).
\<close>

definition digit_char :: "nat \<Rightarrow> char" where
  "digit_char k = char_of (48 + k)"

definition pad2 :: "nat \<Rightarrow> string" where
  "pad2 n = [digit_char (n div 10 mod 10), digit_char (n mod 10)]"

definition pad4 :: "nat \<Rightarrow> string" where
  "pad4 n = [digit_char (n div 1000 mod 10), digit_char (n div 100 mod 10),
             digit_char (n div 10 mod 10), digit_char (n mod 10)]"

definition year_text :: "nat \<Rightarrow> string" where
  "year_text y =
     (if y < 10 then [digit_char y]
      else if y < 100 then pad2 y
      else if y < 1000 then
        [digit_char (y div 100 mod 10), digit_char (y div 10 mod 10), digit_char (y mod 10)]
      else pad4 y)"

definition strftime_canonical :: "datetime \<Rightarrow> string" where
  "strftime_canonical t =
     year_text (dt_year t) @ ''-'' @ pad2 (dt_month t) @ ''-'' @ pad2 (dt_day t) @ ''T''
       @ pad2 (dt_hour t) @ '':'' @ pad2 (dt_minute t) @ '':'' @ pad2 (dt_second t) @ ''.00Z''"

text \<open>
  The shape \<^verbatim>\<open>YYYY-MM-DDTHH:MM:SS.00Z\<close> of a canonical timestamp, and the canonical
  timestamp of a date and time: its text of that shape, the year on four digits.
\<close>

definition canonical_text :: "datetime \<Rightarrow> string" where
  "canonical_text t =
     pad4 (dt_year t) @ ''-'' @ pad2 (dt_month t) @ ''-'' @ pad2 (dt_day t) @ ''T''
       @ pad2 (dt_hour t) @ '':'' @ pad2 (dt_minute t) @ '':'' @ pad2 (dt_second t) @ ''.00Z''"

definition is_digit :: "char \<Rightarrow> bool" where
  "is_digit c = (48 \<le> (of_char c :: nat) \<and> (of_char c :: nat) \<le> 57)"

definition canonical_pattern :: "string \<Rightarrow> bool" where
  "canonical_pattern s =
     (length s = 23
      \<and> list_all (\<lambda>i. is_digit (s ! i)) [0, 1, 2, 3, 5, 6, 8, 9, 11, 12, 14, 15, 17, 18]
      \<and> s ! 4 = CHR ''-'' \<and> s ! 7 = CHR ''-'' \<and> s ! 10 = CHR ''T''
      \<and> s ! 13 = CHR '':'' \<and> s ! 16 = CHR '':'' \<and> drop 19 s = ''.00Z'')"

subsection \<open>The date normalizer\<close>

text \<open>\<^verbatim>\<open>s.replace(old, new)\<close> for a non-empty \<open>old\<close>: every occurrence, from the left.\<close>

fun py_replace :: "string \<Rightarrow> string \<Rightarrow> string \<Rightarrow> string" where
  "py_replace old new [] = []"
| "py_replace old new (c # cs) =
     (if take (length old) (c # cs) = old
      then new @ py_replace old new (drop (length old - 1) cs)
      else c # py_replace old new cs)"

text \<open>
  \<^verbatim>\<open>t + timedelta(hours=k)\<close>: the hours are added, each full day moves the date to the
  next day of the calendar, and a result after year 9999 is \<^verbatim>\<open>OverflowError\<close>.
\<close>

definition next_day :: "nat \<times> nat \<times> nat \<Rightarrow> nat \<times> nat \<times> nat" where
  "next_day = (\<lambda>(y, m, d).
     if d < days_in_month y m then (y, m, d + 1)
     else if m < 12 then (y, m + 1, 1) else (y + 1, 1, 1))"

definition add_hours :: "nat \<Rightarrow> datetime \<Rightarrow> error + datetime" where
  "add_hours k t =
     (let total = dt_hour t + k;
          (y, m, d) = (next_day ^^ (total div 24)) (dt_year t, dt_month t, dt_day t)
      in if y \<le> 9999
         then Inr (t\<lparr>dt_year := y, dt_month := m, dt_day := d, dt_hour := total mod 24\<rparr>)
         else Inl OverflowError)"

definition convert_date_to_standard_format :: "string \<Rightarrow> error + string" where
  "convert_date_to_standard_format date =
     (let cleaned_time = py_replace '' ET'' [] date in
      case strptime_site cleaned_time of
        Inl e \<Rightarrow> Inl e
      | Inr t \<Rightarrow> (case add_hours 4 t of
                    Inl e \<Rightarrow> Inl e
                  | Inr datetime_obj \<Rightarrow> Inr (strftime_canonical datetime_obj)))"

text \<open>
  The date strings of the site, \<^verbatim>\<open>Mon. D, YYYY H:MM AM/PM\<close>: the abbreviated month with
  a period, the day and the hour of the 12-hour clock without padding, the year on four
  digits, the minutes on two. The site appends \<^verbatim>\<open>" ET"\<close>.
\<close>

definition month_name :: "nat \<Rightarrow> string" where
  "month_name mon = fst (month_abbr ! (mon - 1))"

definition am_pm :: "bool \<Rightarrow> string" where
  "am_pm pm = (if pm then ''PM'' else ''AM'')"

definition dec :: "nat \<Rightarrow> string" where
  "dec n = (if n < 10 then [digit_char n] else pad2 n)"

definition site_date_text :: "nat \<Rightarrow> nat \<Rightarrow> nat \<Rightarrow> nat \<Rightarrow> nat \<Rightarrow> bool \<Rightarrow> string" where
  "site_date_text mon d y h mi pm =
     month_name mon @ ''. '' @ dec d @ '', '' @ pad4 y @ '' '' @ dec h @ '':''
       @ pad2 mi @ '' '' @ am_pm pm"

section \<open>The network, the clock and the pages\<close>

text \<open>
  What the connector reads of a fetched and parsed page: the \<^verbatim>\<open>href\<close> attribute of every
  anchor with \<^verbatim>\<open>data-test-id="post-list-item-title"\<close>, in document order (\<open>None\<close> for an
  anchor without the attribute), and, for each of the four elements of an article that
  \<^verbatim>\<open>soup.find\<close> looks up, its text or the direct children of the container (\<open>None\<close> when
  the element is missing and \<^verbatim>\<open>soup.find\<close> returns \<^verbatim>\<open>None\<close>).
\<close>

record page =
  anchors :: "string option list"
  post_date :: "string option"
  post_title :: "string option"
  post_author :: "string option"
  content_container :: "element list option"

text \<open>
  The record the connector yields. The constructors \<^verbatim>\<open>Title\<close>, \<^verbatim>\<open>Content\<close>, \<^verbatim>\<open>Author\<close>,
  \<^verbatim>\<open>CreatedAt\<close>, \<^verbatim>\<open>Url\<close> and \<^verbatim>\<open>Domain\<close> of \<^verbatim>\<open>exorde_data\<close> are taken to accept the
  strings they are given here.
\<close>

record item =
  item_title :: string
  item_content :: string
  item_author :: string
  item_created_at :: string
  item_url :: string
  item_domain :: string

text \<open>
  The world outside the program: what the network answers to the \<open>n\<close>-th request, for each
  URL, what the clock shows at its \<open>n\<close>-th reading, the URLs requested so far and the number
  of readings of the clock so far.
\<close>

record world =
  net :: "nat \<Rightarrow> string \<Rightarrow> error + page"
  clock :: "nat \<Rightarrow> datetime"
  requested :: "string list"
  clock_reads :: nat

text \<open>\<^verbatim>\<open>requests.get\<close> followed by \<^verbatim>\<open>BeautifulSoup(response.text, 'html.parser')\<close>.\<close>

definition http_get :: "string \<Rightarrow> world \<Rightarrow> (error + page) \<times> world" where
  "http_get u w = (net w (length (requested w)) u, w\<lparr>requested := requested w @ [u]\<rparr>)"

text \<open>\<^verbatim>\<open>datetime.now(pytz.utc)\<close>.\<close>

definition utc_now :: "world \<Rightarrow> datetime \<times> world" where
  "utc_now w = (clock w (clock_reads w), w\<lparr>clock_reads := Suc (clock_reads w)\<rparr>)"

section \<open>The connector\<close>

definition check_for_max_age :: "string \<Rightarrow> pyval \<Rightarrow> world \<Rightarrow> (error + bool) \<times> world" where
  "check_for_max_age date max_age w =
     (case strptime_canonical date of
        Inl e \<Rightarrow> (Inl e, w)
      | Inr date_to_check \<Rightarrow>
          (case utc_now w of (now, w') \<Rightarrow>
             (case strptime_canonical (strftime_canonical now) of
                Inl e \<Rightarrow> (Inl e, w')
              | Inr now_time \<Rightarrow>
                  (case int_of max_age of
                     Inl e \<Rightarrow> (Inl e, w')
                   | Inr b \<Rightarrow> (Inr (total_seconds_between now_time date_to_check \<le> b), w')))))"

text \<open>
  The body of the \<^verbatim>\<open>try\<close> of \<^verbatim>\<open>request_content_with_timeout\<close>: the record, \<open>None\<close> for
  a stale article, or the exception raised. \<^verbatim>\<open>.text\<close> of a missing element is an
  \<^verbatim>\<open>AttributeError\<close>, and so is \<^verbatim>\<open>findChildren\<close> of a missing container.
\<close>

definition request_content_body ::
  "string \<Rightarrow> pyval \<Rightarrow> world \<Rightarrow> (error + item option) \<times> world" where
  "request_content_body u max_age w =
     (case http_get u w of (response, w1) \<Rightarrow>
     (case response of
        Inl e \<Rightarrow> (Inl e, w1)
      | Inr soup \<Rightarrow>
     (case post_date soup of
        None \<Rightarrow> (Inl AttributeError, w1)
      | Some date_text \<Rightarrow>
     (case convert_date_to_standard_format date_text of
        Inl e \<Rightarrow> (Inl e, w1)
      | Inr date \<Rightarrow>
     (case check_for_max_age date max_age w1 of (checked, w2) \<Rightarrow>
     (case checked of
        Inl e \<Rightarrow> (Inl e, w2)
      | Inr fresh \<Rightarrow>
          if \<not> fresh then (Inr None, w2)
          else
     (case post_title soup of
        None \<Rightarrow> (Inl AttributeError, w2)
      | Some title \<Rightarrow>
     (case post_author soup of
        None \<Rightarrow> (Inl AttributeError, w2)
      | Some author_text \<Rightarrow>
     (case content_container soup of
        None \<Rightarrow> (Inl AttributeError, w2)
      | Some content_paragraphs \<Rightarrow>
          (Inr (Some \<lparr>item_title = title,
                      item_content = extract_content content_paragraphs,
                      item_author = lstrip ''By: '' author_text,
                      item_created_at = date,
                      item_url = u,
                      item_domain = ''seekingalpha.com''\<rparr>), w2))))))))))"

text \<open>
  \<^verbatim>\<open>request_content_with_timeout\<close>: \<^verbatim>\<open>except Exception\<close> logs and falls off the end of
  the function, which returns \<^verbatim>\<open>None\<close>.
\<close>

definition request_content_with_timeout ::
  "string \<Rightarrow> pyval \<Rightarrow> world \<Rightarrow> item option \<times> world" where
  "request_content_with_timeout u max_age w =
     (case request_content_body u max_age w of (result, w') \<Rightarrow>
        (case result of Inl e \<Rightarrow> (None, w') | Inr r \<Rightarrow> (r, w')))"

text \<open>\<^verbatim>\<open>"https://seekingalpha.com" + card["href"]\<close>.\<close>

definition article_url :: "string \<Rightarrow> string" where
  "article_url href = ''https://seekingalpha.com'' @ href"

text \<open>
  A generator is its run to exhaustion: the records it yields, each with the world as it is
  when the record is yielded, then the exception that ends it, if any, and the world at its
  end. A consumer that stops after a record leaves the world of that record.

  The loop of \<^verbatim>\<open>parse_entry_for_elements\<close>: \<^verbatim>\<open>card["href"]\<close> of an anchor without the
  attribute is a \<^verbatim>\<open>KeyError\<close>; a record is yielded when it is truthy, which every record
  is; otherwise the loop breaks.
\<close>

fun parse_entry_loop ::
  "pyval \<Rightarrow> string option list \<Rightarrow> world \<Rightarrow> (item \<times> world) list \<times> error option \<times> world" where
  "parse_entry_loop max_age [] w = ([], None, w)"
| "parse_entry_loop max_age (a_card # cards) w =
     (case a_card of
        None \<Rightarrow> ([], Some KeyError, w)
      | Some href \<Rightarrow>
          (case request_content_with_timeout (article_url href) max_age w of (r, w') \<Rightarrow>
             (case r of
                None \<Rightarrow> ([], None, w')
              | Some it \<Rightarrow>
                  (case parse_entry_loop max_age cards w' of
                     (its, e, w'') \<Rightarrow> ((it, w') # its, e, w'')))))"

text \<open>\<^verbatim>\<open>parse_entry_for_elements\<close>: the exception of the loop is logged and the generator ends.\<close>

definition parse_entry_for_elements ::
  "string option list \<Rightarrow> pyval \<Rightarrow> world \<Rightarrow> (item \<times> world) list \<times> world" where
  "parse_entry_for_elements cards max_age w =
     (case parse_entry_loop max_age cards w of (its, e, w') \<Rightarrow> (its, w'))"

text \<open>
  \<^verbatim>\<open>request_entries_with_timeout\<close>: a failure of the request for the listing page is
  logged and the generator ends without a record.
\<close>

definition request_entries_with_timeout ::
  "string \<Rightarrow> pyval \<Rightarrow> world \<Rightarrow> (item \<times> world) list \<times> world" where
  "request_entries_with_timeout u max_age w =
     (case http_get u w of (response, w') \<Rightarrow>
        (case response of
           Inl e \<Rightarrow> ([], w')
         | Inr soup \<Rightarrow> parse_entry_for_elements (anchors soup) max_age w'))"

text \<open>
  The loop of \<^verbatim>\<open>query\<close> over the records of the scanner: the records yielded, the
  exception that leaves \<^verbatim>\<open>query\<close>, if any, and the world at its end. The comparison
  \<^verbatim>\<open>yielded_items >= maximum_items_to_collect\<close> is made after the record is yielded.
\<close>

fun query_loop ::
  "pyval \<Rightarrow> int \<Rightarrow> (item \<times> world) list \<Rightarrow> world \<Rightarrow> item list \<times> error option \<times> world" where
  "query_loop maximum_items_to_collect yielded_items [] w_end = ([], None, w_end)"
| "query_loop maximum_items_to_collect yielded_items ((it, w) # rest) w_end =
     (case int_of maximum_items_to_collect of
        Inl e \<Rightarrow> ([it], Some e, w)
      | Inr cap \<Rightarrow>
          if yielded_items + 1 \<ge> cap then ([it], None, w)
          else (case query_loop maximum_items_to_collect (yielded_items + 1) rest w_end of
                  (its, e, w') \<Rightarrow> (it # its, e, w')))"

definition url_main_endpoint :: string where
  "url_main_endpoint = ''https://seekingalpha.com/market-news''"

definition query :: "pyval \<Rightarrow> world \<Rightarrow> item list \<times> error option \<times> world" where
  "query parameters w =
     (case read_parameters parameters of
        Inl e \<Rightarrow> ([], Some e, w)
      | Inr (max_oldness_seconds, maximum_items_to_collect, min_post_length) \<Rightarrow>
          (case request_entries_with_timeout url_main_endpoint max_oldness_seconds w of
             (records, w_end) \<Rightarrow> query_loop maximum_items_to_collect 0 records w_end))"

text \<open>The configuration gives a number as the cap on the records.\<close>

definition cap_is_number :: "pyval \<Rightarrow> bool" where
  "cap_is_number parameters =
     (case read_parameters parameters of
        Inl e \<Rightarrow> False
      | Inr (max_oldness_seconds, maximum_items_to_collect, min_post_length) \<Rightarrow>
          (case int_of maximum_items_to_collect of Inl e \<Rightarrow> False | Inr n \<Rightarrow> True))"

section \<open>A small site\<close>

text \<open>
  A listing page with three links, of which the first and the third lead to an article
  published two and a half minutes before the time of the clock and the second to an
  article of the day before; and a listing page whose only link is an absolute URL.
\<close>

definition fresh_article :: page where
  "fresh_article =
     \<lparr>anchors = [],
      post_date = Some ''Jul. 18, 2023 8:13 AM ET'',
      post_title = Some ''Fed holds rates'',
      post_author = Some ''By: Bob'',
      content_container =
        Some [\<lparr>el_name = ''p'', el_text = ''A''\<rparr>,
              \<lparr>el_name = ''figure'', el_text = ''chart''\<rparr>,
              \<lparr>el_name = ''p'', el_text = ''More on XYZ:''\<rparr>,
              \<lparr>el_name = ''p'', el_text = ''B''\<rparr>]\<rparr>"

definition stale_article :: page where
  "stale_article = fresh_article\<lparr>post_date := Some ''Jul. 17, 2023 8:13 AM ET''\<rparr>"

definition listing :: "string option list \<Rightarrow> page" where
  "listing hrefs =
     \<lparr>anchors = hrefs, post_date = None, post_title = None, post_author = None,
      content_container = None\<rparr>"

definition site_net :: "string option list \<Rightarrow> nat \<Rightarrow> string \<Rightarrow> error + page" where
  "site_net hrefs n u =
     (if u = ''https://seekingalpha.com/market-news'' then Inr (listing hrefs)
      else if u = ''https://seekingalpha.com/news/1'' then Inr fresh_article
      else if u = ''https://seekingalpha.com/news/2'' then Inr stale_article
      else if u = ''https://seekingalpha.com/news/3'' then Inr fresh_article
      else Inl TransportError)"

definition site_clock :: "nat \<Rightarrow> datetime" where
  "site_clock n =
     \<lparr>dt_year = 2023, dt_month = 7, dt_day = 18, dt_hour = 12, dt_minute = 15,
      dt_second = 30, dt_micro = 250000\<rparr>"

definition site :: "string option list \<Rightarrow> world" where
  "site hrefs = \<lparr>net = site_net hrefs, clock = site_clock, requested = [], clock_reads = 0\<rparr>"

definition three_links :: "string option list" where
  "three_links = [Some ''/news/1'', Some ''/news/2'', Some ''/news/3'']"

definition absolute_link :: "string option list" where
  "absolute_link = [Some ''https://seekingalpha.com/news/1'']"

text \<open>A network on which every request fails.\<close>

definition unreachable :: world where
  "unreachable =
     \<lparr>net = (\<lambda>n u. Inl TransportError), clock = site_clock, requested = [], clock_reads = 0\<rparr>"

text \<open>
  The site after the request for the first article, after that and the request for the
  second, and after a request for the third article alone.
\<close>

definition after_first :: world where
  "after_first =
     \<lparr>net = site_net three_links, clock = site_clock,
      requested = [''https://seekingalpha.com/news/1''], clock_reads = 1\<rparr>"

definition after_second :: world where
  "after_second =
     \<lparr>net = site_net three_links, clock = site_clock,
      requested = [''https://seekingalpha.com/news/1'', ''https://seekingalpha.com/news/2''],
      clock_reads = 2\<rparr>"

definition after_third :: world where
  "after_third =
     \<lparr>net = site_net three_links, clock = site_clock,
      requested = [''https://seekingalpha.com/news/3''], clock_reads = 1\<rparr>"

text \<open>The same site with a clock that shows the year 999.\<close>

definition early_clock :: "nat \<Rightarrow> datetime" where
  "early_clock n =
     \<lparr>dt_year = 999, dt_month = 7, dt_day = 18, dt_hour = 12, dt_minute = 15,
      dt_second = 30, dt_micro = 0\<rparr>"

definition early_site :: world where
  "early_site =
     \<lparr>net = site_net three_links, clock = early_clock, requested = [], clock_reads = 0\<rparr>"

text \<open>The time of publication of the articles, in UTC, on day \<open>d\<close> of July 2023.\<close>

definition published :: "nat \<Rightarrow> datetime" where
  "published d =
     \<lparr>dt_year = 2023, dt_month = 7, dt_day = d, dt_hour = 12, dt_minute = 13,
      dt_second = 0, dt_micro = 0\<rparr>"

definition fresh_item :: "string \<Rightarrow> item" where
  "fresh_item u =
     \<lparr>item_title = ''Fed holds rates'', item_content = ''A'' @ [newline], item_author = ''ob'',
      item_created_at = ''2023-07-18T12:13:00.00Z'', item_url = u,
      item_domain = ''seekingalpha.com''\<rparr>"


section \<open>Notions used in the proofs\<close>

text \<open>A parser that matches nothing on an input that starts with a decimal digit.\<close>

definition rejects_digit :: "'a parser \<Rightarrow> bool" where
  "rejects_digit q = (\<forall>c r. 48 \<le> (of_char c :: nat) \<and> (of_char c :: nat) \<le> 57 \<longrightarrow> q (c # r) = [])"

text \<open>A string without a space and without the letter \<^verbatim>\<open>E\<close>.\<close>

definition plain :: "string \<Rightarrow> bool" where
  "plain xs = (CHR '' '' \<notin> set xs \<and> CHR ''E'' \<notin> set xs)"

text \<open>A date of the calendar, and its ordinal.\<close>

definition valid_date :: "nat \<times> nat \<times> nat \<Rightarrow> bool" where
  "valid_date = (\<lambda>(y, m, d). 1 \<le> y \<and> 1 \<le> m \<and> m \<le> 12 \<and> 1 \<le> d \<and> d \<le> days_in_month y m)"

definition ord_of :: "nat \<times> nat \<times> nat \<Rightarrow> nat" where
  "ord_of = (\<lambda>(y, m, d). ymd2ord y m d)"


section \<open>The configuration\<close>

lemma read_parameters_dict:
  "read_parameters (PDict kvs) =
     Inr (value_or kvs ''max_oldness_seconds'' (PInt 360),
          value_or kvs ''maximum_items_to_collect'' (PInt 25),
          value_or kvs ''min_post_length'' (PInt 10))"
  by (cases kvs)
     (simp_all add: read_parameters_def get_or_default_def value_or_def
        DEFAULT_OLDNESS_SECONDS_def DEFAULT_MAXIMUM_ITEMS_def DEFAULT_MIN_POST_LENGTH_def)

lemma read_parameters_other:
  "\<not> (truthy p \<and> is_dict p) \<Longrightarrow> read_parameters p = Inr (PInt 360, PInt 25, PInt 10)"
  unfolding read_parameters_def
    DEFAULT_OLDNESS_SECONDS_def DEFAULT_MAXIMUM_ITEMS_def DEFAULT_MIN_POST_LENGTH_def
  by (simp only: if_False)

section \<open>Parsing and formatting dates\<close>

lemma of_char_digit_char: "k < 10 \<Longrightarrow> (of_char (digit_char k) :: nat) = 48 + k"
  by (simp add: digit_char_def)

lemma digit_digit_char:
  "k < 10 \<Longrightarrow> digit lo hi (digit_char k # r) = (if lo \<le> k \<and> k \<le> hi then [(k, r)] else [])"
  by (simp add: digit_def of_char_digit_char)

lemma pad2_digits: "a < 10 \<Longrightarrow> b < 10 \<Longrightarrow> pad2 (10 * a + b) = [digit_char a, digit_char b]"
  by (simp add: pad2_def)

lemma rejects_digit_ichr:
  "lower_code (of_char x) < 48 \<or> 57 < lower_code (of_char x) \<Longrightarrow> rejects_digit (ichr x)"
  by (auto simp: rejects_digit_def ichr_def lower_code_def)

lemma rejects_digit_spaces: "rejects_digit spaces"
  by (auto simp: rejects_digit_def spaces_def is_space_def)

lemma four_digits:
  assumes "y < 10000"
  shows "1000 * (y div 1000 mod 10) + 100 * (y div 100 mod 10) + 10 * (y div 10 mod 10) + y mod 10 = (y::nat)"
proof -
  define q1 where "q1 = y div 10"
  define q2 where "q2 = q1 div 10"
  define q3 where "q3 = q2 div 10"
  have e1: "y div 100 = q2" and e2: "y div 1000 = q3"
    by (simp_all add: q1_def q2_def q3_def div_mult2_eq)
  have s1: "y = 10 * q1 + y mod 10" by (simp add: q1_def)
  have s2: "q1 = 10 * q2 + q1 mod 10" by (simp add: q2_def)
  have s3: "q2 = 10 * q3 + q2 mod 10" by (simp add: q3_def)
  have "q3 < 10" using assms e2 by (simp add: less_mult_imp_div_less)
  then have s4: "q3 mod 10 = q3" by simp
  have "1000 * (q3 mod 10) + 100 * (q2 mod 10) + 10 * (q1 mod 10) + y mod 10 = y"
    using s1 s2 s3 s4 by linarith
  then show ?thesis by (simp add: e1 e2 q1_def)
qed

lemma re_Y_pad4:
  assumes "y < 10000"
  shows "re_Y (pad4 y @ r) = [(y, r)]"
proof -
  define a b c d where "a = y div 1000 mod 10" and "b = y div 100 mod 10"
    and "c = y div 10 mod 10" and "d = y mod 10"
  have lt: "a < 10" "b < 10" "c < 10" "d < 10"
    by (simp_all add: a_def b_def c_def d_def)
  have val: "1000 * a + 100 * b + 10 * c + d = y"
    unfolding a_def b_def c_def d_def by (rule four_digits [OF assms])
  have "pad4 y @ r = digit_char a # digit_char b # digit_char c # digit_char d # r"
    by (simp add: pad4_def a_def b_def c_def d_def)
  then show ?thesis
    using lt val by (simp add: re_Y_def seq_def ret_def digit_digit_char)
qed


lemma ret_seq [simp]: "seq (ret a) f = f a"
  by (rule ext) (simp add: seq_def ret_def)

lemma seq_alt: "seq (alt p q) f s = seq p f s @ seq q f s"
  by (simp add: seq_def alt_def)

lemma concat_map_concat:
  "concat (map F (concat (map G xs))) = concat (map (\<lambda>x. concat (map F (G x))) xs)"
  by (induction xs) simp_all

lemma seq_seq: "seq (seq p g) f = seq p (\<lambda>a. seq (g a) f)"
  by (rule ext) (simp add: seq_def concat_map_concat case_prod_unfold)

lemma seq_single: "p s = [(a, r)] \<Longrightarrow> seq p f s = f a r"
  by (simp add: seq_def)

lemma seq_nil: "p s = [] \<Longrightarrow> seq p f s = []"
  by (simp add: seq_def)

lemma rejects_digitD: "rejects_digit q \<Longrightarrow> k < 10 \<Longrightarrow> q (digit_char k # r) = []"
  by (simp add: rejects_digit_def of_char_digit_char)

lemma seq_digit:
  "k < 10 \<Longrightarrow> seq (digit lo hi) f (digit_char k # r) = (if lo \<le> k \<and> k \<le> hi then f k r else [])"
  by (auto simp: seq_def digit_digit_char)

lemma seq_pair2: "seq (pair2 p q) f = seq p (\<lambda>a. seq q (\<lambda>b. f (10 * a + b)))"
  by (simp add: pair2_def seq_seq)

lemma seq_rejects: "rejects_digit q \<Longrightarrow> k < 10 \<Longrightarrow> seq q f (digit_char k # r) = []"
  by (simp add: seq_def rejects_digitD)

lemma seq_ichr_digit:
  "k < 10 \<Longrightarrow> lower_code (of_char x) < 48 \<or> 57 < lower_code (of_char x) \<Longrightarrow>
   seq (ichr x) f (digit_char k # r) = []"
  by (rule seq_rejects [OF rejects_digit_ichr])

lemma pad2_split:
  assumes "n < 100"
  obtains a b where "a < 10" "b < 10" "n = 10 * a + b" "pad2 n = [digit_char a, digit_char b]"
proof
  show "n div 10 < 10" using assms by simp
  show "n mod 10 < 10" by simp
  show "n = 10 * (n div 10) + n mod 10" by simp
  show "pad2 n = [digit_char (n div 10), digit_char (n mod 10)]"
    using assms by (simp add: pad2_def)
qed

lemma re_M_pad2:
  assumes "mi < 60" "rejects_digit q"
  shows "seq re_M (\<lambda>v. seq q (f v)) (pad2 mi @ r) = seq q (f mi) r"
proof -
  from assms(1) have "mi < 100" by simp
  then obtain a b where ab: "a < 10" "b < 10" "mi = 10 * a + b" "pad2 mi = [digit_char a, digit_char b]"
    by (rule pad2_split)
  with assms(1) have "a \<le> 5" by simp
  then show ?thesis
    using ab assms(2) by (simp add: re_M_def seq_alt seq_pair2 seq_digit seq_rejects)
qed

lemma re_S_pad2:
  assumes "sec < 60" "rejects_digit q"
  shows "seq re_S (\<lambda>v. seq q (f v)) (pad2 sec @ r) = seq q (f sec) r"
proof -
  from assms(1) have "sec < 100" by simp
  then obtain a b where ab: "a < 10" "b < 10" "sec = 10 * a + b" "pad2 sec = [digit_char a, digit_char b]"
    by (rule pad2_split)
  with assms(1) have "a \<le> 5" by simp
  then show ?thesis
    using ab assms(2) by (simp add: re_S_def seq_alt seq_pair2 seq_digit seq_rejects)
qed

lemma re_H_pad2:
  assumes "h < 24" "rejects_digit q"
  shows "seq re_H (\<lambda>v. seq q (f v)) (pad2 h @ r) = seq q (f h) r"
proof -
  from assms(1) have "h < 100" by simp
  then obtain a b where ab: "a < 10" "b < 10" "h = 10 * a + b" "pad2 h = [digit_char a, digit_char b]"
    by (rule pad2_split)
  with assms(1) have "a \<le> 2" "a = 2 \<longrightarrow> b \<le> 3" by simp_all
  then show ?thesis
    using ab assms(2) by (auto simp: re_H_def seq_alt seq_pair2 seq_digit seq_rejects)
qed

lemma re_m_pad2:
  assumes "1 \<le> m" "m \<le> 12" "rejects_digit q"
  shows "seq re_m (\<lambda>v. seq q (f v)) (pad2 m @ r) = seq q (f m) r"
proof -
  from assms(2) have "m < 100" by simp
  then obtain a b where ab: "a < 10" "b < 10" "m = 10 * a + b" "pad2 m = [digit_char a, digit_char b]"
    by (rule pad2_split)
  with assms(1,2) have "a \<le> 1" "a = 1 \<longrightarrow> b \<le> 2" "a = 0 \<longrightarrow> 1 \<le> b" by simp_all
  then show ?thesis
    using ab assms(3) by (auto simp: re_m_def seq_alt seq_pair2 seq_digit seq_rejects)
qed

lemma re_d_pad2:
  assumes "1 \<le> d" "d \<le> 31" "rejects_digit q"
  shows "seq re_d (\<lambda>v. seq q (f v)) (pad2 d @ r) = seq q (f d) r"
proof -
  from assms(2) have "d < 100" by simp
  then obtain a b where ab: "a < 10" "b < 10" "d = 10 * a + b" "pad2 d = [digit_char a, digit_char b]"
    by (rule pad2_split)
  with assms(1,2) have "a \<le> 3" "a = 3 \<longrightarrow> b \<le> 1" "a = 0 \<longrightarrow> 1 \<le> b" by simp_all
  then show ?thesis
    using ab assms(3)
    by (auto simp: re_d_def seq_alt seq_pair2 seq_digit seq_rejects seq_seq seq_ichr_digit lower_code_def)
qed


lemma seq_re_Y_pad4: "y < 10000 \<Longrightarrow> seq re_Y f (pad4 y @ r) = f y r"
  by (simp add: seq_def re_Y_pad4)

lemma seq_ichr_same: "seq (ichr c) f (c # r) = f () r"
  by (simp add: seq_def ichr_def)

lemma rejects_digit_istr:
  "lower_code (of_char x) < 48 \<or> 57 < lower_code (of_char x) \<Longrightarrow> rejects_digit (istr (x # xs))"
  using rejects_digit_ichr [of x]
  by (simp add: rejects_digit_def seq_def)

lemma days_in_month_le: "days_in_month y m \<le> 31"
  by (simp add: days_in_month_def)

lemma canonical_regex_text:
  assumes "valid_datetime t"
  shows "canonical_regex (canonical_text t)
           = [((dt_year t, dt_month t, dt_day t, dt_hour t, dt_minute t, dt_second t), [])]"
proof -
  have d31: "dt_day t \<le> 31"
    using assms days_in_month_le [of "dt_year t" "dt_month t"] by (simp add: valid_datetime_def)
  have rj: "rejects_digit (ichr CHR ''-'')" "rejects_digit (ichr CHR ''T'')"
    "rejects_digit (ichr CHR '':'')" "rejects_digit (istr ''.00Z'')"
    by (simp_all add: rejects_digit_ichr rejects_digit_istr lower_code_def del: istr.simps)
  have tail: "seq (istr ''.00Z'') f ''.00Z'' = f () []" for f :: "unit \<Rightarrow> 'b parser"
    by (simp add: seq_seq seq_ichr_same)
  show ?thesis
    using assms d31 rj
    by (simp add: valid_datetime_def canonical_regex_def canonical_text_def
          seq_re_Y_pad4 seq_ichr_same re_m_pad2 re_d_pad2 re_H_pad2 re_M_pad2 re_S_pad2 tail
          ret_def del: istr.simps)
qed

lemma canonical_roundtrip:
  assumes "valid_datetime t"
  shows "strptime_canonical (canonical_text t) = Inr (t\<lparr>dt_micro := 0\<rparr>)"
  using assms
  by (simp add: strptime_canonical_def first_match_def canonical_regex_text [OF assms]
        make_datetime_def valid_datetime_def)

lemma seq_one_of_Cons:
  "seq (one_of ((w, v) # ws)) f s = seq (istr w) (\<lambda>_. f v) s @ seq (one_of ws) f s"
  by (simp add: seq_alt seq_seq)

lemma seq_one_of_Nil: "seq (one_of []) f s = []"
  by (simp add: seq_def)

lemma seq_istr_Cons: "seq (istr (x # xs)) f = seq (ichr x) (\<lambda>_. seq (istr xs) f)"
  by (simp add: seq_seq)

lemma seq_istr_Nil: "seq (istr []) f = f ()"
  by simp

lemma seq_ichr_Cons:
  "seq (ichr x) f (c # r) = (if lower_code (of_char c) = lower_code (of_char x) then f () r else [])"
  by (simp add: seq_def ichr_def)

lemma seq_re_b:
  assumes "1 \<le> mon" "mon \<le> 12"
  shows "seq re_b f (month_name mon @ r) = f mon r"
proof -
  have "mon = 1 \<or> mon = 2 \<or> mon = 3 \<or> mon = 4 \<or> mon = 5 \<or> mon = 6 \<or> mon = 7 \<or> mon = 8
          \<or> mon = 9 \<or> mon = 10 \<or> mon = 11 \<or> mon = 12"
    using assms by presburger
  then show ?thesis
    by (elim disjE)
       (simp_all add: re_b_def month_name_def month_abbr_def seq_one_of_Cons seq_one_of_Nil
          seq_istr_Cons seq_istr_Nil seq_ichr_Cons lower_code_def del: one_of.simps istr.simps)
qed


lemma seq_spaces_one:
  "\<not> is_space x \<Longrightarrow> seq spaces f (CHR '' '' # x # r) = f () (x # r)"
  by (simp add: seq_def spaces_def is_space_def)

lemma not_space_digit_char: "k < 10 \<Longrightarrow> \<not> is_space (digit_char k)"
  by (simp add: is_space_def of_char_digit_char)

lemma dec_split:
  assumes "1 \<le> n" "n < 100"
  obtains "n < 10" "dec n = [digit_char n]"
  | a b where "1 \<le> a" "a < 10" "b < 10" "n = 10 * a + b" "dec n = [digit_char a, digit_char b]"
proof (cases "n < 10")
  case True
  then show ?thesis using that(1) by (simp add: dec_def)
next
  case False
  from assms(2) obtain a b where ab: "a < 10" "b < 10" "n = 10 * a + b"
      "pad2 n = [digit_char a, digit_char b]"
    by (rule pad2_split)
  with False have "1 \<le> a" by simp
  with ab False show ?thesis using that(2) by (simp add: dec_def)
qed

lemma seq_digit_other:
  "(of_char c :: nat) < 48 \<or> 57 < (of_char c :: nat) \<Longrightarrow> hi \<le> 9 \<Longrightarrow>
   seq (digit lo hi) f (c # r) = []"
  by (auto simp: seq_def digit_def)

lemma re_d_dec:
  assumes "1 \<le> d" "d \<le> 31"
  shows "seq re_d (\<lambda>v. seq (ichr CHR '','') (f v)) (dec d @ CHR '','' # r) = f d () r"
proof -
  from assms have "1 \<le> d" "d < 100" by simp_all
  then show ?thesis
  proof (cases rule: dec_split)
    case 1
    with assms show ?thesis
      by (simp add: re_d_def seq_alt seq_pair2 seq_digit seq_seq seq_ichr_digit seq_digit_other
            seq_ichr_same lower_code_def)
  next
    case (2 a b)
    with assms have "a \<le> 3" "a = 3 \<longrightarrow> b \<le> 1" by simp_all
    with 2 show ?thesis
      by (auto simp: re_d_def seq_alt seq_pair2 seq_digit seq_seq seq_ichr_digit seq_ichr_same
            lower_code_def)
  qed
qed

lemma re_I_dec:
  assumes "1 \<le> h" "h \<le> 12"
  shows "seq re_I (\<lambda>v. seq (ichr CHR '':'') (f v)) (dec h @ CHR '':'' # r) = f h () r"
proof -
  from assms have "1 \<le> h" "h < 100" by simp_all
  then show ?thesis
  proof (cases rule: dec_split)
    case 1
    with assms show ?thesis
      by (simp add: re_I_def seq_alt seq_pair2 seq_digit seq_seq seq_ichr_digit seq_digit_other
            seq_ichr_same lower_code_def)
  next
    case (2 a b)
    with assms have "a = 1" "b \<le> 2" by simp_all
    with 2 show ?thesis
      by (auto simp: re_I_def seq_alt seq_pair2 seq_digit seq_seq seq_ichr_digit seq_ichr_same
            lower_code_def)
  qed
qed

lemma seq_re_p: "seq re_p f (am_pm pm @ r) = f pm r"
  by (simp add: am_pm_def re_p_def seq_one_of_Cons seq_one_of_Nil
        seq_istr_Cons seq_istr_Nil seq_ichr_Cons lower_code_def del: one_of.simps istr.simps)

lemma seq_spaces_dec:
  "1 \<le> n \<Longrightarrow> n < 100 \<Longrightarrow> seq spaces f (CHR '' '' # dec n @ r) = f () (dec n @ r)"
  by (erule (1) dec_split) (simp_all add: seq_spaces_one not_space_digit_char)

lemma seq_spaces_pad4:
  "seq spaces f (CHR '' '' # pad4 y @ r) = f () (pad4 y @ r)"
  by (simp add: pad4_def seq_spaces_one not_space_digit_char)

lemma seq_spaces_ampm:
  "seq spaces f (CHR '' '' # am_pm pm @ r) = f () (am_pm pm @ r)"
  by (simp add: am_pm_def seq_spaces_one is_space_def)

lemma seq_re_p_end: "seq re_p f (am_pm pm) = f pm []"
  using seq_re_p [of f pm "[]"] by simp

lemma seq_spaces_ampm_end: "seq spaces f (CHR '' '' # am_pm pm) = f () (am_pm pm)"
  using seq_spaces_ampm [of f pm "[]"] by simp

lemma site_regex_text:
  assumes "1 \<le> mon" "mon \<le> 12" "1 \<le> d" "d \<le> 31" "y < 10000" "1 \<le> h" "h \<le> 12" "mi < 60"
  shows "site_regex (site_date_text mon d y h mi pm) = [((mon, d, y, h, mi, pm), [])]"
proof -
  have rj: "rejects_digit spaces" by (rule rejects_digit_spaces)
  have b: "d < 100" "h < 100" using assms by simp_all
  show ?thesis
    unfolding site_regex_def site_date_text_def
    using assms b rj
    by (simp add: seq_re_b seq_ichr_same seq_spaces_dec re_d_dec seq_spaces_pad4 seq_re_Y_pad4
          re_I_dec re_M_pad2 seq_re_p_end seq_spaces_ampm_end ret_def)
qed

subsection \<open>Removing the zone marker\<close>

lemma plain_append [simp]: "plain (xs @ ys) = (plain xs \<and> plain ys)"
  by (auto simp: plain_def)

lemma plain_Cons: "plain (c # cs) = (c \<noteq> CHR '' '' \<and> c \<noteq> CHR ''E'' \<and> plain cs)"
  by (auto simp: plain_def)

lemma plain_Nil [simp]: "plain []"
  by (simp add: plain_def)

lemma replace_other:
  "c \<noteq> CHR '' '' \<Longrightarrow> py_replace '' ET'' [] (c # cs) = c # py_replace '' ET'' [] cs"
  by (cases cs; cases "tl cs") auto

lemma replace_plain:
  "plain xs \<Longrightarrow> py_replace '' ET'' [] (xs @ ys) = xs @ py_replace '' ET'' [] ys"
  by (induction xs) (simp_all add: replace_other plain_Cons del: py_replace.simps)

lemma replace_space_plain:
  assumes "xs \<noteq> []" "plain xs"
  shows "py_replace '' ET'' [] (CHR '' '' # xs @ ys) = CHR '' '' # xs @ py_replace '' ET'' [] ys"
proof -
  from assms obtain x xs' where xs: "xs = x # xs'" "x \<noteq> CHR ''E''"
    by (cases xs) (auto simp: plain_Cons)
  then have "py_replace '' ET'' [] (CHR '' '' # xs @ ys) = CHR '' '' # py_replace '' ET'' [] (xs @ ys)"
    by (cases "xs' @ ys") auto
  with assms(2) show ?thesis by (simp add: replace_plain)
qed

lemma digit_char_neq:
  "k < 10 \<Longrightarrow> (of_char c :: nat) < 48 \<or> 57 < (of_char c :: nat) \<Longrightarrow> digit_char k \<noteq> c"
  using of_char_digit_char [of k] by auto

lemma plain_digit: "k < 10 \<Longrightarrow> plain [digit_char k]"
  by (simp add: plain_Cons digit_char_neq)

lemma plain_pad2: "plain (pad2 n)"
  using plain_digit [of "n div 10 mod 10"] plain_digit [of "n mod 10"]
  by (simp add: pad2_def plain_Cons)

lemma plain_pad4: "plain (pad4 n)"
  using plain_digit [of "n div 1000 mod 10"] plain_digit [of "n div 100 mod 10"]
    plain_digit [of "n div 10 mod 10"] plain_digit [of "n mod 10"]
  by (simp add: pad4_def plain_Cons)

lemma plain_dec: "plain (dec n)"
  by (simp add: dec_def plain_pad2 plain_digit)

lemma plain_am_pm: "plain (am_pm pm)"
  by (simp add: am_pm_def plain_Cons)

lemma plain_month:
  assumes "1 \<le> mon" "mon \<le> 12"
  shows "plain (month_name mon)"
proof -
  from assms have "mon = 1 \<or> mon = 2 \<or> mon = 3 \<or> mon = 4 \<or> mon = 5 \<or> mon = 6 \<or> mon = 7 \<or> mon = 8
          \<or> mon = 9 \<or> mon = 10 \<or> mon = 11 \<or> mon = 12"
    by presburger
  then show ?thesis
    by (elim disjE) (simp_all add: month_name_def month_abbr_def plain_Cons)
qed

lemma replace_site_text:
  assumes "1 \<le> mon" "mon \<le> 12"
  shows "py_replace '' ET'' [] (site_date_text mon d y h mi pm @ '' ET'')
           = site_date_text mon d y h mi pm"
proof -
  define s0 s1 s2 s3 s4 where "s0 = month_name mon @ ''.''" and "s1 = dec d @ '',''"
    and "s2 = pad4 y" and "s3 = dec h @ '':'' @ pad2 mi" and "s4 = am_pm pm"
  have shape: "site_date_text mon d y h mi pm
                 = s0 @ CHR '' '' # s1 @ CHR '' '' # s2 @ CHR '' '' # s3 @ CHR '' '' # s4"
    by (simp add: site_date_text_def s0_def s1_def s2_def s3_def s4_def)
  have p: "plain s0" "plain s1" "plain s2" "plain s3" "plain s4"
    using plain_month [OF assms]
    by (simp_all add: s0_def s1_def s2_def s3_def s4_def plain_dec plain_pad2 plain_pad4
          plain_am_pm plain_Cons)
  have ne: "s1 \<noteq> []" "s2 \<noteq> []" "s3 \<noteq> []" "s4 \<noteq> []"
    by (simp_all add: s1_def s2_def s3_def s4_def pad4_def am_pm_def)
  have fin: "py_replace '' ET'' [] '' ET'' = []" by simp
  have "py_replace '' ET'' []
          (s0 @ CHR '' '' # s1 @ CHR '' '' # s2 @ CHR '' '' # s3 @ CHR '' '' # s4 @ '' ET'')
        = s0 @ CHR '' '' # s1 @ CHR '' '' # s2 @ CHR '' '' # s3 @ CHR '' '' # s4"
    using p ne fin by (simp add: replace_plain replace_space_plain del: py_replace.simps)
  then show ?thesis by (simp add: shape)
qed

subsection \<open>The calendar\<close>

lemma mod_100_4: "(y::nat) mod 100 = 0 \<Longrightarrow> y mod 4 = 0"
proof -
  assume "y mod 100 = 0"
  then have "100 dvd y" by (simp add: mod_eq_0_iff_dvd)
  moreover have "(4::nat) dvd 100" by simp
  ultimately have "4 dvd y" by (rule dvd_trans [rotated])
  then show ?thesis by (simp add: mod_eq_0_iff_dvd)
qed

lemma mod_400_100: "(y::nat) mod 400 = 0 \<Longrightarrow> y mod 100 = 0"
proof -
  assume "y mod 400 = 0"
  then have "400 dvd y" by (simp add: mod_eq_0_iff_dvd)
  moreover have "(100::nat) dvd 400" by simp
  ultimately have "100 dvd y" by (rule dvd_trans [rotated])
  then show ?thesis by (simp add: mod_eq_0_iff_dvd)
qed

lemma days_before_year_Suc:
  assumes "1 \<le> y"
  shows "days_before_year (Suc y) = days_before_year y + (if is_leap y then 366 else 365)"
proof -
  obtain n where n: "y = Suc n" using assms by (cases y) auto
  define q4 q100 q400 where "q4 = n div 4" and "q100 = n div 100" and "q400 = n div 400"
  define a b c :: nat where "a = (if y mod 4 = 0 then 1 else 0)"
    and "b = (if y mod 100 = 0 then 1 else 0)" and "c = (if y mod 400 = 0 then 1 else 0)"
  have le: "q100 \<le> q4" by (simp add: q100_def q4_def div_le_mono2)
  have d4: "y div 4 = q4 + a" and d100: "y div 100 = q100 + b" and d400: "y div 400 = q400 + c"
    by (simp_all add: n div_Suc q4_def q100_def q400_def a_def b_def c_def)
  have ba: "b \<le> a" using mod_100_4 [of y] by (simp add: a_def b_def)
  have cb: "c \<le> b" using mod_400_100 [of y] by (simp add: b_def c_def)
  have abc: "a \<le> 1" "b \<le> 1" "c \<le> 1" by (simp_all add: a_def b_def c_def)
  have leap: "(if is_leap y then 366 else 365) = 365 + a + c - b"
    using ba cb abc by (auto simp: is_leap_def a_def b_def c_def split: if_splits)
  have "days_before_year (Suc y) = y * 365 + (q4 + a) - (q100 + b) + (q400 + c)"
    by (simp add: days_before_year_def d4 d100 d400)
  moreover have "days_before_year y = n * 365 + q4 - q100 + q400"
    by (simp add: days_before_year_def n q4_def q100_def q400_def)
  ultimately show ?thesis
    unfolding leap using le ba cb n by linarith
qed

lemma ord_next_day:
  assumes "valid_date x"
  shows "ord_of (next_day x) = Suc (ord_of x)"
proof -
  obtain y m d where x: "x = (y, m, d)" by (cases x) auto
  from assms x have v: "1 \<le> y" "1 \<le> m" "m \<le> 12" "1 \<le> d" "d \<le> days_in_month y m"
    by (simp_all add: valid_date_def)
  have ms: "m = 1 \<or> m = 2 \<or> m = 3 \<or> m = 4 \<or> m = 5 \<or> m = 6 \<or> m = 7 \<or> m = 8
          \<or> m = 9 \<or> m = 10 \<or> m = 11 \<or> m = 12"
    using v(2,3) by presburger
  show ?thesis
  proof (cases "d < days_in_month y m")
    case True
    then show ?thesis by (simp add: x next_day_def ord_of_def ymd2ord_def)
  next
    case False
    with v have d: "d = days_in_month y m" by simp
    show ?thesis
    proof (cases "m < 12")
      case True
      with ms have "m = 1 \<or> m = 2 \<or> m = 3 \<or> m = 4 \<or> m = 5 \<or> m = 6 \<or> m = 7 \<or> m = 8
          \<or> m = 9 \<or> m = 10 \<or> m = 11" by auto
      then show ?thesis
        by (elim disjE)
           (simp_all add: x d next_day_def ord_of_def ymd2ord_def days_before_month_def
              days_in_month_def)
    next
      case False
      with v have m: "m = 12" by simp
      show ?thesis
        using days_before_year_Suc [OF v(1)]
        by (simp add: x d m next_day_def ord_of_def ymd2ord_def days_before_month_def
              days_in_month_def)
    qed
  qed
qed

lemma valid_next_day: "valid_date x \<Longrightarrow> valid_date (next_day x)"
  by (cases x) (auto simp: valid_date_def next_day_def days_in_month_def)

lemma valid_funpow_next_day: "valid_date x \<Longrightarrow> valid_date ((next_day ^^ n) x)"
  by (induction n) (simp_all add: valid_next_day)

lemma ord_funpow_next_day: "valid_date x \<Longrightarrow> ord_of ((next_day ^^ n) x) = ord_of x + n"
  by (induction n) (simp_all add: ord_next_day valid_funpow_next_day)

lemma add_hours_result:
  assumes "valid_datetime t" "add_hours k t = Inr t'"
  shows "to_seconds t' = to_seconds t + 3600 * int k \<and> valid_datetime t'"
proof -
  define x where "x = (dt_year t, dt_month t, dt_day t)"
  define n where "n = (dt_hour t + k) div 24"
  obtain y m d where r: "(next_day ^^ n) x = (y, m, d)" by (cases "(next_day ^^ n) x") auto
  have vx: "valid_date x" using assms(1) by (simp add: x_def valid_date_def valid_datetime_def)
  have vr: "valid_date (y, m, d)" using valid_funpow_next_day [OF vx, of n] r by simp
  have ordr: "ymd2ord y m d = ymd2ord (dt_year t) (dt_month t) (dt_day t) + n"
    using ord_funpow_next_day [OF vx, of n] r by (simp add: ord_of_def x_def)
  from assms(2) r have y: "y \<le> 9999"
      and t': "t' = t\<lparr>dt_year := y, dt_month := m, dt_day := d, dt_hour := (dt_hour t + k) mod 24\<rparr>"
    by (simp_all add: add_hours_def Let_def x_def [symmetric] n_def [symmetric] split: if_splits)
  define hm where "hm = (dt_hour t + k) mod 24"
  have hk: "24 * n + hm = dt_hour t + k" by (simp add: n_def hm_def)
  have "to_seconds t'
          = int (ymd2ord y m d) * 86400 + int (3600 * hm + 60 * dt_minute t + dt_second t)"
    by (simp add: to_seconds_def t' hm_def)
  then have "to_seconds t' = to_seconds t + 3600 * int k"
    using hk ordr by (simp add: to_seconds_def)
  moreover have "valid_datetime t'"
    using assms(1) vr y by (simp add: valid_datetime_def t' valid_date_def)
  ultimately show ?thesis by simp
qed

lemma year_next_day: "fst x \<le> fst (next_day x)"
  by (cases x) (simp add: next_day_def)

lemma year_funpow_next_day: "fst x \<le> fst ((next_day ^^ n) x)"
proof (induction n)
  case 0
  show ?case by simp
next
  case (Suc n)
  then show ?case using year_next_day [of "(next_day ^^ n) x"] by simp
qed

lemma add_hours_year: "add_hours k t = Inr t' \<Longrightarrow> dt_year t \<le> dt_year t'"
  using year_funpow_next_day [of "(dt_year t, dt_month t, dt_day t)" "(dt_hour t + k) div 24"]
  by (auto simp: add_hours_def Let_def split: if_splits prod.splits)

lemma is_digit_digit_char: "k < 10 \<Longrightarrow> is_digit (digit_char k)"
  by (simp add: is_digit_def of_char_digit_char)

lemma canonical_pattern_text: "canonical_pattern (canonical_text t)"
  by (simp add: canonical_pattern_def canonical_text_def pad2_def pad4_def is_digit_digit_char)

lemma strftime_canonical_text:
  "1000 \<le> dt_year t \<Longrightarrow> strftime_canonical t = canonical_text t"
  by (simp add: strftime_canonical_def canonical_text_def year_text_def)

lemma strptime_site_text:
  assumes "1 \<le> mon" "mon \<le> 12" "1 \<le> d" "d \<le> days_in_month y mon" "1 \<le> y" "y \<le> 9999"
    "1 \<le> h" "h \<le> 12" "mi < 60"
  shows "strptime_site (site_date_text mon d y h mi pm)
           = Inr \<lparr>dt_year = y, dt_month = mon, dt_day = d, dt_hour = hour24 h pm,
                  dt_minute = mi, dt_second = 0, dt_micro = 0\<rparr>"
proof -
  have "d \<le> 31" using assms(4) days_in_month_le [of y mon] by simp
  with assms have "site_regex (site_date_text mon d y h mi pm) = [((mon, d, y, h, mi, pm), [])]"
    by (intro site_regex_text) simp_all
  moreover have "hour24 h pm < 24" using assms(8) by (simp add: hour24_def)
  ultimately show ?thesis
    using assms by (simp add: strptime_site_def first_match_def make_datetime_def valid_datetime_def)
qed

lemma add_four_hours_no_overflow:
  assumes "valid_datetime t" "\<not> (dt_year t = 9999 \<and> dt_month t = 12 \<and> dt_day t = 31 \<and> 20 \<le> dt_hour t)"
  shows "\<exists>t'. add_hours 4 t = Inr t'"
proof (cases "dt_hour t + 4 < 24")
  case True
  then have "(dt_hour t + 4) div 24 = 0" by simp
  with assms(1) show ?thesis by (simp add: add_hours_def valid_datetime_def)
next
  case False
  with assms(1) have "(dt_hour t + 4) div 24 = 1" "20 \<le> dt_hour t"
    by (simp_all add: valid_datetime_def div_nat_eqI)
  with assms show ?thesis
    by (auto simp: add_hours_def valid_datetime_def next_day_def days_in_month_def)
qed

lemma add_hours_micro: "add_hours k t = Inr t' \<Longrightarrow> dt_micro t' = dt_micro t"
  by (auto simp: add_hours_def Let_def split: if_splits prod.splits)


section \<open>The boilerplate pattern and the body\<close>

subsection \<open>The matcher accepts the language\<close>

lemma nullable_lang: "[] \<in> lang r \<Longrightarrow> nullable r"
  by (induction r) (auto)

lemma star_cons:
  assumes "x \<in> star A" "x = c # w"
  shows "\<exists>u v. w = u @ v \<and> c # u \<in> A \<and> v \<in> star A"
  using assms
proof (induction arbitrary: w rule: star.induct)
  case star_nil
  then show ?case by simp
next
  case (star_app u v)
  show ?case
  proof (cases u)
    case Nil
    with star_app show ?thesis by simp
  next
    case (Cons a u')
    with star_app.prems have "a = c" "w = u' @ v" by simp_all
    with Cons star_app.hyps show ?thesis by blast
  qed
qed

lemma deriv_lang: "c # w \<in> lang r \<Longrightarrow> w \<in> lang (deriv c r)"
proof (induction r arbitrary: w)
  case (Cat r s)
  from Cat.prems obtain u v where uv: "c # w = u @ v" "u \<in> lang r" "v \<in> lang s" by auto
  show ?case
  proof (cases u)
    case Nil
    with uv have "nullable r" "c # w \<in> lang s" by (simp_all add: nullable_lang)
    with Cat.IH(2) show ?thesis by simp
  next
    case (Cons a u')
    with uv have "c # u' \<in> lang r" "w = u' @ v" by simp_all
    with Cat.IH(1) uv(3) have "w \<in> lang (Cat (deriv c r) s)" by auto
    then show ?thesis by simp
  qed
next
  case (Star r)
  then have "c # w \<in> star (lang r)" by simp
  then obtain u v where "w = u @ v" "c # u \<in> lang r" "v \<in> star (lang r)"
    using star_cons by blast
  with Star.IH show ?case by auto
qed auto

lemma matches_lang: "w \<in> lang r \<Longrightarrow> matches r w"
  by (induction w arbitrary: r) (simp_all add: nullable_lang deriv_lang)

lemma lang_rx_lit: "s \<in> lang (rx_lit s)"
  unfolding rx_lit_def
proof (induction s)
  case Nil
  show ?case by simp
next
  case (Cons a s)
  then have "[a] @ s \<in> lang (Cat (Chr a) (foldr (\<lambda>c. Cat (Chr c)) s Eps))"
    unfolding lang.simps by blast
  then show ?case by simp
qed

lemma star_words: "list_all is_word_char w \<Longrightarrow> w \<in> star (lang WordCh)"
proof (induction w)
  case Nil
  show ?case by (rule star_nil)
next
  case (Cons a w)
  then have "[a] \<in> lang WordCh" "w \<in> star (lang WordCh)" by simp_all
  then have "[a] @ w \<in> star (lang WordCh)" by (rule star_app)
  then show ?case by simp
qed

lemma lang_rx_plus_word:
  assumes "w \<noteq> []" "list_all is_word_char w"
  shows "w \<in> lang (rx_plus WordCh)"
proof -
  from assms obtain a w' where w: "w = [a] @ w'" "is_word_char a" "list_all is_word_char w'"
    by (cases w) auto
  then have "[a] \<in> lang WordCh" "w' \<in> lang (Star WordCh)"
    using star_words [of w'] by simp_all
  then have "[a] @ w' \<in> lang (Cat WordCh (Star WordCh))" unfolding lang.simps(5) by blast
  with w show ?thesis by (simp add: rx_plus_def)
qed

lemma more_on_word_matches:
  assumes "w \<noteq> []" "list_all is_word_char w" "t = [] \<or> t = '':''"
  shows "matches REGEX_PATTERN (''More on '' @ w @ t)"
proof -
  have "t \<in> lang (rx_opt (Chr CHR '':''))" using assms(3) by (auto simp: rx_opt_def)
  with lang_rx_plus_word [OF assms(1,2)]
  have "w @ t \<in> lang (Cat (rx_plus WordCh) (rx_opt (Chr CHR '':'')))"
    unfolding lang.simps(5) by blast
  with lang_rx_lit [of "''More on ''"]
  have "''More on '' @ (w @ t) \<in> lang REGEX_PATTERN"
    unfolding REGEX_PATTERN_def lang.simps(5) by blast
  then show ?thesis by (rule matches_lang)
qed

subsection \<open>The loop over the children\<close>

lemma content_loop_halt:
  assumes "\<And>acc. content_loop (el # post) acc = acc"
  shows "content_loop (pre @ el # post) acc = content_loop pre acc"
  by (induction pre arbitrary: acc) (simp_all add: assms del: content_loop.simps(2), simp)

section \<open>The extractor, the scanner and the pipeline\<close>

subsection \<open>The age filter\<close>

lemma check_for_max_age_canonical:
  assumes "valid_datetime t" "valid_datetime (clock w (clock_reads w))"
    and "1000 \<le> dt_year (clock w (clock_reads w))"
  shows "check_for_max_age (canonical_text t) (PInt b) w
           = (Inr (to_seconds (clock w (clock_reads w)) - to_seconds t \<le> b),
              w\<lparr>clock_reads := Suc (clock_reads w)\<rparr>)"
  using canonical_roundtrip [OF assms(1)] canonical_roundtrip [OF assms(2)]
    strftime_canonical_text [OF assms(3)]
  by (simp add: check_for_max_age_def utc_now_def total_seconds_between_def to_seconds_def)

lemma whole_seconds:
  assumes "0 \<le> u" "u < 1000000"
  shows "(sn - st \<le> b) \<longleftrightarrow> (sn * 1000000 + u - st * 1000000 < (b + 1) * (1000000::int))"
proof
  show "sn * 1000000 + u - st * 1000000 < (b + 1) * 1000000" if "sn - st \<le> b"
    using that assms by (simp add: algebra_simps)
  show "sn - st \<le> b" if "sn * 1000000 + u - st * 1000000 < (b + 1) * 1000000"
    using that assms by (simp add: algebra_simps)
qed

subsection \<open>The extractor\<close>

lemma check_for_max_age_requested:
  "check_for_max_age d a w = (r, w') \<Longrightarrow> requested w' = requested w"
  by (auto simp: check_for_max_age_def utc_now_def split: sum.splits prod.splits)

lemma request_content_body_requested:
  "request_content_body u a w = (r, w') \<Longrightarrow> requested w' = requested w @ [u]"
  by (auto simp: request_content_body_def http_get_def
        split: sum.splits prod.splits option.splits if_splits
        dest!: check_for_max_age_requested)

lemma request_content_requested:
  "request_content_with_timeout u a w = (r, w') \<Longrightarrow> requested w' = requested w @ [u]"
  by (auto simp: request_content_with_timeout_def split: sum.splits prod.splits
        dest!: request_content_body_requested)

lemma request_content_body_url:
  "request_content_body u a w = (Inr (Some it), w') \<Longrightarrow> item_url it = u"
  by (auto simp: request_content_body_def split: sum.splits prod.splits option.splits if_splits)

lemma request_content_url:
  "request_content_with_timeout u a w = (Some it, w') \<Longrightarrow> item_url it = u"
  by (auto simp: request_content_with_timeout_def split: sum.splits prod.splits
        dest!: request_content_body_url)


subsection \<open>The scanner\<close>

lemma parse_entry_loop_length: "length (fst (parse_entry_loop a cs w)) \<le> length cs"
proof (induction cs arbitrary: w)
  case Nil
  show ?case by simp
next
  case (Cons c cs)
  show ?case
    using Cons [of "snd (request_content_with_timeout (article_url (the c)) a w)"]
    by (auto split: option.splits prod.splits)
qed

lemma parse_entry_loop_urls:
  "map (\<lambda>r. Some (item_url (fst r))) (fst (parse_entry_loop a cs w))
     = map (map_option article_url) (take (length (fst (parse_entry_loop a cs w))) cs)"
proof (induction cs arbitrary: w)
  case Nil
  show ?case by simp
next
  case (Cons c cs)
  show ?case
    using Cons [of "snd (request_content_with_timeout (article_url (the c)) a w)"]
    by (auto split: option.splits prod.splits dest: request_content_url)
qed

lemma parse_entry_loop_stop:
  "length (fst (parse_entry_loop a pre w)) < length pre \<Longrightarrow>
   parse_entry_loop a (pre @ post) w = parse_entry_loop a pre w"
proof (induction pre arbitrary: w)
  case Nil
  then show ?case by simp
next
  case (Cons c pre)
  show ?case
    using Cons.prems Cons.IH [of "snd (request_content_with_timeout (article_url (the c)) a w)"]
    by (auto split: option.splits prod.splits)
qed

lemma parse_entry_loop_requests:
  "\<exists>n\<le>length cs. map Some (requested (snd (snd (parse_entry_loop a cs w))))
       = map Some (requested w) @ map (map_option article_url) (take n cs)"
proof (induction cs arbitrary: w)
  case Nil
  show ?case by simp
next
  case (Cons c cs)
  show ?case
  proof (cases c)
    case None
    then show ?thesis by (auto intro: exI [of _ 0])
  next
    case (Some h)
    obtain r w' where rc: "request_content_with_timeout (article_url h) a w = (r, w')"
      by (cases "request_content_with_timeout (article_url h) a w") auto
    then have rq: "requested w' = requested w @ [article_url h]"
      by (rule request_content_requested)
    show ?thesis
    proof (cases r)
      case None
      with Some rc rq show ?thesis by (auto intro!: exI [of _ 1])
    next
      case (Some it)
      from Cons [of w'] obtain n where n: "n \<le> length cs"
        "map Some (requested (snd (snd (parse_entry_loop a cs w'))))
           = map Some (requested w') @ map (map_option article_url) (take n cs)"
        by blast
      with \<open>c = Some h\<close> Some rc rq show ?thesis
        by (auto intro!: exI [of _ "Suc n"] split: prod.splits)
    qed
  qed
qed

lemma parse_entry_loop_full_prefix:
  "parse_entry_loop a pre w = (its, e, w1) \<Longrightarrow> length its = length pre \<Longrightarrow>
   e = None
   \<and> parse_entry_loop a (pre @ rest) w
       = (case parse_entry_loop a rest w1 of (its', e', w') \<Rightarrow> (its @ its', e', w'))"
proof (induction pre arbitrary: w its)
  case Nil
  then show ?case by simp
next
  case (Cons c pre)
  from Cons.prems obtain h where c: "c = Some h"
    by (cases c) auto
  obtain r w' where rc: "request_content_with_timeout (article_url h) a w = (r, w')"
    by (cases "request_content_with_timeout (article_url h) a w") auto
  from Cons.prems c rc obtain it where r: "r = Some it"
    by (cases r) auto
  obtain its0 e0 w0 where l: "parse_entry_loop a pre w' = (its0, e0, w0)"
    by (cases "parse_entry_loop a pre w'") auto
  with Cons.prems c rc r have eq: "its = (it, w') # its0" "e = e0" "w1 = w0"
    by simp_all
  with Cons.prems(2) have n: "length its0 = length pre" by simp
  from l eq have l': "parse_entry_loop a pre w' = (its0, e, w1)" by simp
  from Cons.IH [OF l' n] c rc r eq show ?case
    by (simp split: prod.splits)
qed

lemma query_loop_nonempty: "fst (query_loop cap y (r # recs) w_end) \<noteq> []"
  by (cases r) (simp split: sum.splits prod.splits)

lemma read_parameters_Inr:
  "\<exists>max_oldness_seconds cap min_post_length.
     read_parameters p = Inr (max_oldness_seconds, cap, min_post_length)"
proof (cases "truthy p \<and> is_dict p")
  case True
  then obtain kvs where "p = PDict kvs" by (cases p) auto
  then show ?thesis by (simp add: read_parameters_dict)
next
  case False
  then show ?thesis by (simp add: read_parameters_other)
qed

lemma fst_parse_entry_for_elements:
  "fst (parse_entry_for_elements cs a w) = fst (parse_entry_loop a cs w)"
  by (simp add: parse_entry_for_elements_def split: prod.splits)

lemma snd_parse_entry_for_elements:
  "snd (parse_entry_for_elements cs a w) = snd (snd (parse_entry_loop a cs w))"
  by (simp add: parse_entry_for_elements_def split: prod.splits)

subsection \<open>The pipeline\<close>

lemma query_loop_items:
  "int_of cap = Inr n \<Longrightarrow>
   fst (query_loop cap y recs w_end) = take (nat (max 1 (n - y))) (map fst recs)"
proof (induction recs arbitrary: y)
  case Nil
  show ?case by simp
next
  case (Cons r recs)
  obtain it w where r: "r = (it, w)" by (cases r) auto
  show ?case
  proof (cases "y + 1 \<ge> n")
    case True
    then have "nat (max 1 (n - y)) = 1" by simp
    with True Cons.prems r show ?thesis by simp
  next
    case False
    then have "nat (max 1 (n - y)) = Suc (nat (max 1 (n - (y + 1))))" by simp
    with False Cons.prems r Cons.IH [OF Cons.prems, of "y + 1"] show ?thesis
      by (auto split: prod.splits)
  qed
qed

lemma query_loop_raises_nothing:
  "int_of cap = Inr n \<Longrightarrow> fst (snd (query_loop cap y recs w_end)) = None"
proof (induction recs arbitrary: y)
  case Nil
  show ?case by simp
next
  case (Cons r recs)
  obtain it w where r: "r = (it, w)" by (cases r) auto
  with Cons.prems Cons.IH [OF Cons.prems, of "y + 1"] show ?case
    by (auto split: prod.splits)
qed

text \<open>
  What \<^verbatim>\<open>query\<close> yields with a numeric cap \<open>n\<close>: the first \<open>max 1 n\<close> records of the
  scanner. It is at most \<open>n\<close> records for every \<open>n \<ge> 1\<close>, and no record when the scanner
  yields none.
\<close>

lemma query_yields:
  assumes "read_parameters parameters = Inr (max_oldness_seconds, cap, min_post_length)"
    and "int_of cap = Inr n"
  shows "fst (query parameters w)
           = take (nat (max 1 n))
               (map fst (fst (request_entries_with_timeout url_main_endpoint
                                max_oldness_seconds w)))"
  using query_loop_items [OF assms(2), of 0]
  by (simp add: query_def assms(1) split: prod.splits)

lemma query_yields_at_most_cap:
  assumes "read_parameters parameters = Inr (max_oldness_seconds, cap, min_post_length)"
    and "int_of cap = Inr n" "1 \<le> n"
  shows "int (length (fst (query parameters w))) \<le> n"
  using assms(3) by (simp add: query_yields [OF assms(1,2)])

subsection \<open>The small site, evaluated\<close>

lemma digit_char_values:
  "digit_char 0 = CHR ''0''" "digit_char 1 = CHR ''1''" "digit_char 2 = CHR ''2''"
  "digit_char 3 = CHR ''3''" "digit_char 4 = CHR ''4''" "digit_char 5 = CHR ''5''"
  "digit_char 6 = CHR ''6''" "digit_char 7 = CHR ''7''" "digit_char 8 = CHR ''8''"
  "digit_char 9 = CHR ''9''" "digit_char (Suc 0) = CHR ''1''"
  by code_simp+

lemma site_text_fresh: "site_date_text 7 18 2023 8 13 False = ''Jul. 18, 2023 8:13 AM''"
  by (simp add: site_date_text_def month_name_def month_abbr_def dec_def pad2_def pad4_def
        am_pm_def digit_char_values)

lemma site_text_stale: "site_date_text 7 17 2023 8 13 False = ''Jul. 17, 2023 8:13 AM''"
  by (simp add: site_date_text_def month_name_def month_abbr_def dec_def pad2_def pad4_def
        am_pm_def digit_char_values)

lemma convert_fresh:
  "convert_date_to_standard_format ''Jul. 18, 2023 8:13 AM ET'' = Inr ''2023-07-18T12:13:00.00Z''"
proof -
  have "strptime_site (site_date_text 7 18 2023 8 13 False)
          = Inr \<lparr>dt_year = 2023, dt_month = 7, dt_day = 18, dt_hour = hour24 8 False,
                 dt_minute = 13, dt_second = 0, dt_micro = 0\<rparr>"
    by (rule strptime_site_text) (simp_all add: days_in_month_def)
  moreover have "py_replace '' ET'' [] (site_date_text 7 18 2023 8 13 False @ '' ET'')
                   = site_date_text 7 18 2023 8 13 False"
    by (rule replace_site_text) simp_all
  ultimately show ?thesis
    by (simp add: convert_date_to_standard_format_def site_text_fresh hour24_def add_hours_def
          strftime_canonical_def year_text_def pad2_def pad4_def digit_char_values
          del: py_replace.simps)
qed

lemma convert_stale:
  "convert_date_to_standard_format ''Jul. 17, 2023 8:13 AM ET'' = Inr ''2023-07-17T12:13:00.00Z''"
proof -
  have "strptime_site (site_date_text 7 17 2023 8 13 False)
          = Inr \<lparr>dt_year = 2023, dt_month = 7, dt_day = 17, dt_hour = hour24 8 False,
                 dt_minute = 13, dt_second = 0, dt_micro = 0\<rparr>"
    by (rule strptime_site_text) (simp_all add: days_in_month_def)
  moreover have "py_replace '' ET'' [] (site_date_text 7 17 2023 8 13 False @ '' ET'')
                   = site_date_text 7 17 2023 8 13 False"
    by (rule replace_site_text) simp_all
  ultimately show ?thesis
    by (simp add: convert_date_to_standard_format_def site_text_stale hour24_def add_hours_def
          strftime_canonical_def year_text_def pad2_def pad4_def digit_char_values
          del: py_replace.simps)
qed

lemma text_published:
  "canonical_text (published 18) = ''2023-07-18T12:13:00.00Z''"
  "canonical_text (published 17) = ''2023-07-17T12:13:00.00Z''"
  "canonical_text (published 19) = ''2023-07-19T12:13:00.00Z''"
  by (simp_all add: published_def canonical_text_def pad2_def pad4_def digit_char_values)

lemma valid_published:
  "valid_datetime (published 18)" "valid_datetime (published 17)" "valid_datetime (published 19)"
  by (simp_all add: published_def valid_datetime_def days_in_month_def)

lemma year_site_clock: "1000 \<le> dt_year (site_clock n)"
  by (simp add: site_clock_def)

lemma valid_site_clock: "valid_datetime (site_clock n)"
  by (simp add: site_clock_def valid_datetime_def days_in_month_def)

lemma elapsed_site:
  "to_seconds (site_clock n) - to_seconds (published 18) = 150"
  "to_seconds (site_clock n) - to_seconds (published 17) = 86550"
  "to_seconds (site_clock n) - to_seconds (published 19) = - 86250"
  by (simp_all add: to_seconds_def site_clock_def published_def ymd2ord_def days_before_month_def)

lemma check_fresh:
  assumes "clock w = site_clock"
  shows "check_for_max_age ''2023-07-18T12:13:00.00Z'' (PInt 360) w
           = (Inr True, w\<lparr>clock_reads := Suc (clock_reads w)\<rparr>)"
  using check_for_max_age_canonical [of "published 18" w 360]
  by (simp add: assms valid_published valid_site_clock year_site_clock elapsed_site
        text_published)

lemma check_stale:
  assumes "clock w = site_clock"
  shows "check_for_max_age ''2023-07-17T12:13:00.00Z'' (PInt 360) w
           = (Inr False, w\<lparr>clock_reads := Suc (clock_reads w)\<rparr>)"
  using check_for_max_age_canonical [of "published 17" w 360]
  by (simp add: assms valid_published valid_site_clock year_site_clock elapsed_site
        text_published)

lemma extract_fresh:
  "extract_content [\<lparr>el_name = ''p'', el_text = ''A''\<rparr>, \<lparr>el_name = ''figure'', el_text = ft\<rparr>,
                    \<lparr>el_name = ''p'', el_text = ''More on XYZ:''\<rparr>, \<lparr>el_name = ''p'', el_text = ''B''\<rparr>]
     = ''A'' @ [newline]"
  by (simp add: extract_content_def re_match_def REGEX_PATTERN_def rx_lit_def rx_plus_def
        rx_opt_def is_word_char_def newline_def)

lemma request_fresh:
  assumes "net w = site_net hrefs" "clock w = site_clock"
    and "u = ''https://seekingalpha.com/news/1'' \<or> u = ''https://seekingalpha.com/news/3''"
  shows "request_content_with_timeout u (PInt 360) w
           = (Some (fresh_item u),
              w\<lparr>requested := requested w @ [u], clock_reads := Suc (clock_reads w)\<rparr>)"
  using assms(3)
  by (auto simp: request_content_with_timeout_def request_content_body_def http_get_def assms(1,2)
        site_net_def fresh_article_def convert_fresh check_fresh extract_fresh fresh_item_def
        lstrip_def)

lemma request_stale:
  assumes "net w = site_net hrefs" "clock w = site_clock"
  shows "request_content_with_timeout ''https://seekingalpha.com/news/2'' (PInt 360) w
           = (None, w\<lparr>requested := requested w @ [''https://seekingalpha.com/news/2''],
                       clock_reads := Suc (clock_reads w)\<rparr>)"
  by (simp add: request_content_with_timeout_def request_content_body_def http_get_def assms
        site_net_def fresh_article_def stale_article_def convert_stale check_stale)

lemma scan_three_links:
  assumes "net w = site_net hrefs" "clock w = site_clock"
  shows "parse_entry_loop (PInt 360) three_links w
           = ([(fresh_item ''https://seekingalpha.com/news/1'',
                w\<lparr>requested := requested w @ [''https://seekingalpha.com/news/1''],
                   clock_reads := Suc (clock_reads w)\<rparr>)],
              None,
              w\<lparr>requested := requested w @ [''https://seekingalpha.com/news/1'',
                                             ''https://seekingalpha.com/news/2''],
                 clock_reads := Suc (Suc (clock_reads w))\<rparr>)"
  by (simp add: three_links_def article_url_def request_fresh [OF assms] request_stale assms)


lemma scan_two_links:
  assumes "net w = site_net hrefs" "clock w = site_clock"
  shows "parse_entry_loop (PInt 360) (take 2 three_links) w
           = ([(fresh_item ''https://seekingalpha.com/news/1'',
                w\<lparr>requested := requested w @ [''https://seekingalpha.com/news/1''],
                   clock_reads := Suc (clock_reads w)\<rparr>)],
              None,
              w\<lparr>requested := requested w @ [''https://seekingalpha.com/news/1'',
                                             ''https://seekingalpha.com/news/2''],
                 clock_reads := Suc (Suc (clock_reads w))\<rparr>)"
  by (simp add: three_links_def article_url_def request_fresh [OF assms] request_stale assms)

lemma entries_three_links:
  "request_entries_with_timeout url_main_endpoint (PInt 360) (site three_links)
     = ([(fresh_item ''https://seekingalpha.com/news/1'',
          (site three_links)\<lparr>requested := [''https://seekingalpha.com/market-news'',
                                                 ''https://seekingalpha.com/news/1''],
                               clock_reads := 1\<rparr>)],
        (site three_links)\<lparr>requested := [''https://seekingalpha.com/market-news'',
                                               ''https://seekingalpha.com/news/1'',
                                               ''https://seekingalpha.com/news/2''],
                             clock_reads := 2\<rparr>)"
proof -
  define w where "w = (site three_links)\<lparr>requested := [''https://seekingalpha.com/market-news'']\<rparr>"
  have w: "net w = site_net three_links" "clock w = site_clock"
    by (simp_all add: w_def site_def)
  have "http_get url_main_endpoint (site three_links) = (Inr (listing three_links), w)"
    by (simp add: http_get_def url_main_endpoint_def site_def site_net_def w_def)
  then show ?thesis
    using scan_three_links [OF w]
    by (simp add: request_entries_with_timeout_def parse_entry_for_elements_def listing_def
          w_def site_def)
qed

section \<open>The claims\<close>

text \<open>
  Claim C1. The claim says that, with \<^verbatim>\<open>maximum_items_to_collect\<close> set to an integer
  \<open>N \<ge> 0\<close>, the pipeline yields at most \<open>N\<close> records. \<^verbatim>\<open>query\<close> compares the count with
  the cap only after it has yielded a record: with the cap 0, on a listing whose first article
  is fresh, it yields that article, one record where the cap allows none.
\<close>

theorem query_cap_zero_yields_one:
  "fst (query (PDict [(PStr ''maximum_items_to_collect'', PInt 0)]) (site three_links))
     = [fresh_item ''https://seekingalpha.com/news/1'']"
  by (simp add: query_def read_parameters_def get_or_default_def DEFAULT_OLDNESS_SECONDS_def
        entries_three_links)

text \<open>
  Claim C3. The scanner yields at most as many records as there are links, and the records
  come from the links in document order: the \<open>i\<close>-th record carries the URL built from the
  \<open>i\<close>-th link. It stops at the first link for which no record is produced: when every
  link of a prefix \<open>pre\<close> of the list has given a record and the extractor,
  \<^verbatim>\<open>request_content_with_timeout\<close>, returns \<^verbatim>\<open>None\<close> on the next link (the article is
  stale, or its fetch or extraction failed), the records are those of \<open>pre\<close> and the world is
  the one the extractor left, whatever links follow: none of them is requested. The same
  holds when the next link has no \<^verbatim>\<open>href\<close>. When the extractor returns a record on the
  next link, that record is the next one yielded.
\<close>

theorem scanner_stops_at_first_failure:
  "length (fst (parse_entry_for_elements cards max_age w)) \<le> length cards
   \<and> map (\<lambda>r. Some (item_url (fst r))) (fst (parse_entry_for_elements cards max_age w))
       = map (map_option article_url)
           (take (length (fst (parse_entry_for_elements cards max_age w))) cards)
   \<and> (\<forall>pre href post its w1 w2.
         cards = pre @ Some href # post
         \<and> parse_entry_for_elements pre max_age w = (its, w1) \<and> length its = length pre
         \<and> request_content_with_timeout (article_url href) max_age w1 = (None, w2)
        \<longrightarrow> parse_entry_for_elements cards max_age w = (its, w2))
   \<and> (\<forall>pre post its w1.
         cards = pre @ None # post
         \<and> parse_entry_for_elements pre max_age w = (its, w1) \<and> length its = length pre
        \<longrightarrow> parse_entry_for_elements cards max_age w = (its, w1))
   \<and> (\<forall>pre href post its w1 it w2.
         cards = pre @ Some href # post
         \<and> parse_entry_for_elements pre max_age w = (its, w1) \<and> length its = length pre
         \<and> request_content_with_timeout (article_url href) max_age w1 = (Some it, w2)
        \<longrightarrow> take (Suc (length pre)) (fst (parse_entry_for_elements cards max_age w))
              = its @ [(it, w2)])
   \<and> (\<forall>pre post. cards = pre @ post
          \<and> length (fst (parse_entry_for_elements pre max_age w)) < length pre
        \<longrightarrow> parse_entry_for_elements cards max_age w = parse_entry_for_elements pre max_age w)"
proof (intro conjI allI impI)
  show "length (fst (parse_entry_for_elements cards max_age w)) \<le> length cards"
    using parse_entry_loop_length [of max_age cards w]
    by (simp add: fst_parse_entry_for_elements)
  show "map (\<lambda>r. Some (item_url (fst r))) (fst (parse_entry_for_elements cards max_age w))
       = map (map_option article_url)
           (take (length (fst (parse_entry_for_elements cards max_age w))) cards)"
    using parse_entry_loop_urls [of max_age cards w]
    by (simp add: fst_parse_entry_for_elements)
next
  fix pre href post its w1 w2
  assume a: "cards = pre @ Some href # post
    \<and> parse_entry_for_elements pre max_age w = (its, w1) \<and> length its = length pre
    \<and> request_content_with_timeout (article_url href) max_age w1 = (None, w2)"
  then obtain e where l: "parse_entry_loop max_age pre w = (its, e, w1)"
    by (auto simp: parse_entry_for_elements_def split: prod.splits)
  from a have n: "length its = length pre" by simp
  from parse_entry_loop_full_prefix [OF l n, of "Some href # post"] a
  show "parse_entry_for_elements cards max_age w = (its, w2)"
    by (simp add: parse_entry_for_elements_def)
next
  fix pre post its w1
  assume a: "cards = pre @ None # post
    \<and> parse_entry_for_elements pre max_age w = (its, w1) \<and> length its = length pre"
  then obtain e where l: "parse_entry_loop max_age pre w = (its, e, w1)"
    by (auto simp: parse_entry_for_elements_def split: prod.splits)
  from a have n: "length its = length pre" by simp
  from parse_entry_loop_full_prefix [OF l n, of "None # post"] a
  show "parse_entry_for_elements cards max_age w = (its, w1)"
    by (simp add: parse_entry_for_elements_def)
next
  fix pre href post its w1 it w2
  assume a: "cards = pre @ Some href # post
    \<and> parse_entry_for_elements pre max_age w = (its, w1) \<and> length its = length pre
    \<and> request_content_with_timeout (article_url href) max_age w1 = (Some it, w2)"
  then obtain e where l: "parse_entry_loop max_age pre w = (its, e, w1)"
    by (auto simp: parse_entry_for_elements_def split: prod.splits)
  from a have n: "length its = length pre" by simp
  from parse_entry_loop_full_prefix [OF l n, of "Some href # post"] a n
  show "take (Suc (length pre)) (fst (parse_entry_for_elements cards max_age w))
          = its @ [(it, w2)]"
    by (simp add: parse_entry_for_elements_def split: prod.splits)
next
  fix pre post
  assume a: "cards = pre @ post
               \<and> length (fst (parse_entry_for_elements pre max_age w)) < length pre"
  then have "length (fst (parse_entry_loop max_age pre w)) < length pre"
    by (simp add: fst_parse_entry_for_elements)
  then have "parse_entry_loop max_age (pre @ post) w = parse_entry_loop max_age pre w"
    by (rule parse_entry_loop_stop)
  with a show "parse_entry_for_elements cards max_age w = parse_entry_for_elements pre max_age w"
    by (simp add: parse_entry_for_elements_def)
qed

theorem scanner_stops_at_first_failure_witness:
  "three_links = [Some ''/news/1''] @ Some ''/news/2'' # [Some ''/news/3'']
   \<and> parse_entry_for_elements [Some ''/news/1''] (PInt 360) (site three_links)
       = ([(fresh_item ''https://seekingalpha.com/news/1'', after_first)], after_first)
   \<and> request_content_with_timeout (article_url ''/news/2'') (PInt 360) after_first
       = (None, after_second)
   \<and> fst (request_content_with_timeout (article_url ''/news/3'') (PInt 360) after_second)
       = Some (fresh_item ''https://seekingalpha.com/news/3'')
   \<and> parse_entry_for_elements three_links (PInt 360) (site three_links)
       = ([(fresh_item ''https://seekingalpha.com/news/1'', after_first)], after_second)
   \<and> requested after_second
       = [''https://seekingalpha.com/news/1'', ''https://seekingalpha.com/news/2'']
   \<and> parse_entry_for_elements [Some ''/news/1'', None, Some ''/news/3''] (PInt 360)
         (site three_links)
       = ([(fresh_item ''https://seekingalpha.com/news/1'', after_first)], after_first)
   \<and> take 1 (fst (parse_entry_for_elements [Some ''/news/3'', Some ''/news/1''] (PInt 360)
                    (site three_links)))
       = [(fresh_item ''https://seekingalpha.com/news/3'', after_third)]"
proof -
  have w0: "net (site three_links) = site_net three_links"
    "clock (site three_links) = site_clock"
    by (simp_all add: site_def)
  have w1: "net after_first = site_net three_links" "clock after_first = site_clock"
    by (simp_all add: after_first_def site_def)
  have w2: "net after_second = site_net three_links" "clock after_second = site_clock"
    by (simp_all add: after_second_def site_def)
  have f1: "request_content_with_timeout (article_url ''/news/1'') (PInt 360) (site three_links)
              = (Some (fresh_item ''https://seekingalpha.com/news/1''), after_first)"
    by (simp add: article_url_def request_fresh [OF w0]) (simp add: after_first_def site_def)
  have f3: "request_content_with_timeout (article_url ''/news/3'') (PInt 360) (site three_links)
              = (Some (fresh_item ''https://seekingalpha.com/news/3''), after_third)"
    by (simp add: article_url_def request_fresh [OF w0]) (simp add: after_third_def site_def)
  have p: "parse_entry_for_elements [Some ''/news/1''] (PInt 360) (site three_links)
             = ([(fresh_item ''https://seekingalpha.com/news/1'', after_first)], after_first)"
    by (simp add: parse_entry_for_elements_def f1)
  have s: "request_content_with_timeout (article_url ''/news/2'') (PInt 360) after_first
             = (None, after_second)"
    by (simp add: article_url_def request_stale [OF w1])
       (simp add: after_first_def after_second_def)
  have t: "fst (request_content_with_timeout (article_url ''/news/3'') (PInt 360) after_second)
             = Some (fresh_item ''https://seekingalpha.com/news/3'')"
    by (simp add: article_url_def request_fresh [OF w2])
  have c: "three_links = [Some ''/news/1''] @ Some ''/news/2'' # [Some ''/news/3'']"
    by (simp add: three_links_def)
  have r: "requested after_second
             = [''https://seekingalpha.com/news/1'', ''https://seekingalpha.com/news/2'']"
    by (simp add: after_second_def site_def)
  note a = scanner_stops_at_first_failure [of three_links "PInt 360" "site three_links"]
  have k: "parse_entry_for_elements three_links (PInt 360) (site three_links)
             = ([(fresh_item ''https://seekingalpha.com/news/1'', after_first)], after_second)"
    by (rule a [THEN conjunct2, THEN conjunct2, THEN conjunct1, rule_format,
                of "[Some ''/news/1'']" "''/news/2''" "[Some ''/news/3'']" _ after_first])
       (intro conjI, rule c, rule p, simp, rule s)
  note b = scanner_stops_at_first_failure
             [of "[Some ''/news/1'', None, Some ''/news/3'']" "PInt 360" "site three_links"]
  have m: "parse_entry_for_elements [Some ''/news/1'', None, Some ''/news/3''] (PInt 360)
             (site three_links)
           = ([(fresh_item ''https://seekingalpha.com/news/1'', after_first)], after_first)"
    by (rule b [THEN conjunct2, THEN conjunct2, THEN conjunct2, THEN conjunct1, rule_format,
                of "[Some ''/news/1'']" "[Some ''/news/3'']"])
       (simp add: p)
  note d = scanner_stops_at_first_failure
             [of "[Some ''/news/3'', Some ''/news/1'']" "PInt 360" "site three_links"]
  have e0: "parse_entry_for_elements [] (PInt 360) (site three_links) = ([], site three_links)"
    by (simp add: parse_entry_for_elements_def)
  have "take (Suc (length ([] :: string option list)))
             (fst (parse_entry_for_elements [Some ''/news/3'', Some ''/news/1''] (PInt 360)
                     (site three_links)))
           = [] @ [(fresh_item ''https://seekingalpha.com/news/3'', after_third)]"
    by (rule d [THEN conjunct2, THEN conjunct2, THEN conjunct2, THEN conjunct2, THEN conjunct1,
                rule_format, of "[]" "''/news/3''" "[Some ''/news/1'']" _ "site three_links"])
       (simp add: e0 f3)
  then have q: "take 1 (fst (parse_entry_for_elements [Some ''/news/3'', Some ''/news/1'']
                               (PInt 360) (site three_links)))
                  = [(fresh_item ''https://seekingalpha.com/news/3'', after_third)]"
    by simp
  from c p s t k r m q show ?thesis by simp
qed

text \<open>
  Claim C2. The claim says that the author field is the author text with the prefix
  \<^verbatim>\<open>"By: "\<close> removed, so that \<^verbatim>\<open>"By: Bob"\<close> gives \<^verbatim>\<open>"Bob"\<close>. The source calls
  \<^verbatim>\<open>lstrip("By: ")\<close>, which removes every leading character among \<^verbatim>\<open>B\<close>, \<^verbatim>\<open>y\<close>,
  \<^verbatim>\<open>:\<close> and the space: on \<^verbatim>\<open>"By: Bob"\<close> it also removes the \<^verbatim>\<open>B\<close> of the name, and
  the record of an article signed \<^verbatim>\<open>"By: Bob"\<close> has the author \<^verbatim>\<open>"ob"\<close>.
\<close>

theorem author_lstrip_eats_name:
  "lstrip ''By: '' ''By: Bob'' = ''ob''
   \<and> remove_prefix ''By: '' ''By: Bob'' = ''Bob''
   \<and> post_author fresh_article = Some ''By: Bob''
   \<and> map_option item_author
        (fst (request_content_with_timeout ''https://seekingalpha.com/news/1'' (PInt 360)
               (site three_links)))
       = Some ''ob''"
proof -
  have "net (site three_links) = site_net three_links" "clock (site three_links) = site_clock"
    by (simp_all add: site_def)
  then show ?thesis
    by (simp add: request_fresh fresh_item_def fresh_article_def)
       (simp add: lstrip_def remove_prefix_def)
qed

text \<open>
  Claim C4, as stated, fails on two kinds of date of the site format. On the last four hours
  of the year 9999 the addition of four hours leaves the range of \<^verbatim>\<open>datetime\<close>: the
  normalizer raises \<^verbatim>\<open>OverflowError\<close> and returns no string. On a year before 1000 the
  year is printed without padding: the result has not the canonical pattern, and parsing it
  back with the canonical format raises \<^verbatim>\<open>ValueError\<close>.
\<close>

theorem convert_date_out_of_range:
  "site_date_text 12 31 9999 8 0 True @ '' ET'' = ''Dec. 31, 9999 8:00 PM ET''
   \<and> convert_date_to_standard_format ''Dec. 31, 9999 8:00 PM ET'' = Inl OverflowError
   \<and> site_date_text 7 18 999 8 13 False @ '' ET'' = ''Jul. 18, 0999 8:13 AM ET''
   \<and> convert_date_to_standard_format ''Jul. 18, 0999 8:13 AM ET'' = Inr ''999-07-18T12:13:00.00Z''
   \<and> \<not> canonical_pattern ''999-07-18T12:13:00.00Z''
   \<and> strptime_canonical ''999-07-18T12:13:00.00Z'' = Inl ValueError"
proof -
  have t: "site_date_text 12 31 9999 8 0 True = ''Dec. 31, 9999 8:00 PM''"
    by (simp add: site_date_text_def month_name_def month_abbr_def dec_def pad2_def pad4_def
          am_pm_def digit_char_values)
  have "strptime_site (site_date_text 12 31 9999 8 0 True)
          = Inr \<lparr>dt_year = 9999, dt_month = 12, dt_day = 31, dt_hour = hour24 8 True,
                 dt_minute = 0, dt_second = 0, dt_micro = 0\<rparr>"
    by (rule strptime_site_text) (simp_all add: days_in_month_def)
  moreover have "py_replace '' ET'' [] (site_date_text 12 31 9999 8 0 True @ '' ET'')
                   = site_date_text 12 31 9999 8 0 True"
    by (rule replace_site_text) simp_all
  ultimately have o: "convert_date_to_standard_format ''Dec. 31, 9999 8:00 PM ET''
                        = Inl OverflowError"
    by (simp add: convert_date_to_standard_format_def t hour24_def add_hours_def next_day_def
          days_in_month_def del: py_replace.simps)
  have u: "site_date_text 7 18 999 8 13 False = ''Jul. 18, 0999 8:13 AM''"
    by (simp add: site_date_text_def month_name_def month_abbr_def dec_def pad2_def pad4_def
          am_pm_def digit_char_values)
  have "strptime_site (site_date_text 7 18 999 8 13 False)
          = Inr \<lparr>dt_year = 999, dt_month = 7, dt_day = 18, dt_hour = hour24 8 False,
                 dt_minute = 13, dt_second = 0, dt_micro = 0\<rparr>"
    by (rule strptime_site_text) (simp_all add: days_in_month_def)
  moreover have "py_replace '' ET'' [] (site_date_text 7 18 999 8 13 False @ '' ET'')
                   = site_date_text 7 18 999 8 13 False"
    by (rule replace_site_text) simp_all
  ultimately have c: "convert_date_to_standard_format ''Jul. 18, 0999 8:13 AM ET''
                        = Inr ''999-07-18T12:13:00.00Z''"
    by (simp add: convert_date_to_standard_format_def u hour24_def add_hours_def
          strftime_canonical_def year_text_def pad2_def digit_char_values
          del: py_replace.simps)
  have n: "\<not> canonical_pattern ''999-07-18T12:13:00.00Z''"
    by (simp add: canonical_pattern_def)
  have "re_Y ''999-07-18T12:13:00.00Z'' = []"
    by (simp add: re_Y_def seq_def digit_def ret_def)
  then have "canonical_regex ''999-07-18T12:13:00.00Z'' = []"
    by (simp add: canonical_regex_def seq_def)
  then have p: "strptime_canonical ''999-07-18T12:13:00.00Z'' = Inl ValueError"
    by (simp add: strptime_canonical_def first_match_def)
  from t o u c n p show ?thesis by simp
qed

text \<open>
  Claim C4, amended. For every date of the site format with a year from 1000 to 9999, other
  than the last four hours of 31 December 9999, followed by \<^verbatim>\<open>" ET"\<close>: the normalizer
  returns a string of the canonical pattern, and that string, parsed with the canonical
  format, is exactly four hours (14400 seconds) after the date parsed without its zone
  marker.
\<close>

theorem convert_date_four_hours_later:
  assumes "1 \<le> mon" "mon \<le> 12" "1 \<le> d" "d \<le> days_in_month y mon" "1000 \<le> y" "y \<le> 9999"
    "1 \<le> h" "h \<le> 12" "mi < 60"
    and "\<not> (y = 9999 \<and> mon = 12 \<and> d = 31 \<and> 20 \<le> hour24 h pm)"
  shows "\<exists>out t0 t1.
           convert_date_to_standard_format (site_date_text mon d y h mi pm @ '' ET'') = Inr out
         \<and> canonical_pattern out
         \<and> strptime_site (site_date_text mon d y h mi pm) = Inr t0
         \<and> strptime_canonical out = Inr t1
         \<and> total_seconds_between t1 t0 = 14400"
proof -
  define t0 where "t0 = \<lparr>dt_year = y, dt_month = mon, dt_day = d, dt_hour = hour24 h pm,
                  dt_minute = mi, dt_second = 0, dt_micro = 0\<rparr>"
  have y1: "1 \<le> y" using assms(5) by simp
  have p0: "strptime_site (site_date_text mon d y h mi pm) = Inr t0"
    unfolding t0_def using assms(1-4) y1 assms(6-9) by (rule strptime_site_text)
  have "hour24 h pm < 24" using assms(8) by (simp add: hour24_def)
  with assms y1 have v0: "valid_datetime t0" by (simp add: valid_datetime_def t0_def)
  have "\<not> (dt_year t0 = 9999 \<and> dt_month t0 = 12 \<and> dt_day t0 = 31 \<and> 20 \<le> dt_hour t0)"
    using assms(10) by (simp add: t0_def)
  with v0 obtain t1 where a: "add_hours 4 t0 = Inr t1"
    using add_four_hours_no_overflow by blast
  from add_hours_result [OF v0 a] have s: "to_seconds t1 = to_seconds t0 + 14400"
    and v1: "valid_datetime t1" by simp_all
  have "dt_micro t1 = 0" using add_hours_micro [OF a] by (simp add: t0_def)
  then have m1: "t1\<lparr>dt_micro := 0\<rparr> = t1" by simp
  have y1000: "1000 \<le> dt_year t1"
    using add_hours_year [OF a] assms(5) by (simp add: t0_def)
  have c: "convert_date_to_standard_format (site_date_text mon d y h mi pm @ '' ET'')
             = Inr (canonical_text t1)"
    by (simp add: convert_date_to_standard_format_def replace_site_text [OF assms(1,2)] p0 a
          strftime_canonical_text [OF y1000])
  have r: "strptime_canonical (canonical_text t1) = Inr t1"
    using canonical_roundtrip [OF v1] m1 by simp
  show ?thesis
    using c p0 r s canonical_pattern_text [of t1]
    by (simp add: total_seconds_between_def)
qed

theorem convert_date_four_hours_later_witness:
  "site_date_text 7 18 2023 8 13 False @ '' ET'' = ''Jul. 18, 2023 8:13 AM ET''
   \<and> (\<exists>out t0 t1.
         convert_date_to_standard_format ''Jul. 18, 2023 8:13 AM ET'' = Inr out
       \<and> canonical_pattern out
       \<and> strptime_site ''Jul. 18, 2023 8:13 AM'' = Inr t0
       \<and> strptime_canonical out = Inr t1
       \<and> total_seconds_between t1 t0 = 14400)"
  using convert_date_four_hours_later [of 7 18 2023 8 13 False]
  by (simp add: days_in_month_def hour24_def site_text_fresh)

text \<open>
  Claim C5, as stated, fails in three ways. A timestamp in the future is rejected when the
  budget is negative enough. The filter reads the clock to the second, so that an article
  whose exact age exceeds the budget by a quarter of a second is accepted. And with a clock
  that shows a year before 1000 the filter raises \<^verbatim>\<open>ValueError\<close>, since the text of that
  time, with its unpadded year, does not parse back.
\<close>

theorem age_filter_counterexamples:
  "to_micros (site_clock 0) < to_micros (published 19)
   \<and> fst (check_for_max_age ''2023-07-19T12:13:00.00Z'' (PInt (- 100000)) (site three_links))
       = Inr False
   \<and> to_micros (site_clock 0) - to_micros (published 18) = 150250000
   \<and> fst (check_for_max_age ''2023-07-18T12:13:00.00Z'' (PInt 150) (site three_links))
       = Inr True
   \<and> fst (check_for_max_age ''2023-07-18T12:13:00.00Z'' (PInt 150) early_site)
       = Inl ValueError"
proof -
  have c: "clock (site three_links) (clock_reads (site three_links)) = site_clock 0"
    by (simp add: site_def)
  have m: "to_micros (site_clock 0) - to_micros (published 18) = 150250000"
    "to_micros (site_clock 0) < to_micros (published 19)"
    using elapsed_site(1,3) [of 0]
    by (simp_all add: to_micros_def) (simp_all add: site_clock_def published_def)
  have f: "fst (check_for_max_age ''2023-07-19T12:13:00.00Z'' (PInt (- 100000))
                  (site three_links)) = Inr False"
    using check_for_max_age_canonical [of "published 19" "site three_links" "- 100000"]
    by (simp add: c valid_published valid_site_clock year_site_clock elapsed_site text_published)
  have b: "fst (check_for_max_age ''2023-07-18T12:13:00.00Z'' (PInt 150) (site three_links))
             = Inr True"
    using check_for_max_age_canonical [of "published 18" "site three_links" 150]
    by (simp add: c valid_published valid_site_clock year_site_clock elapsed_site text_published)
  have "re_Y ''999-07-18T12:15:30.00Z'' = []"
    by (simp add: re_Y_def seq_def digit_def ret_def)
  then have "canonical_regex ''999-07-18T12:15:30.00Z'' = []"
    by (simp add: canonical_regex_def seq_def)
  then have "strptime_canonical (strftime_canonical (early_clock 0)) = Inl ValueError"
    by (simp add: strptime_canonical_def first_match_def strftime_canonical_def year_text_def
          early_clock_def pad2_def digit_char_values)
  then have e: "fst (check_for_max_age ''2023-07-18T12:13:00.00Z'' (PInt 150) early_site)
                  = Inl ValueError"
    using canonical_roundtrip [OF valid_published(1)]
    by (simp add: check_for_max_age_def utc_now_def early_site_def text_published)
  from m f b e show ?thesis by simp
qed

text \<open>
  Claim C5, amended. For the canonical timestamp of a valid date and time \<open>t\<close>, an integer
  budget \<open>b\<close> and a clock that shows a year from 1000 on: the age filter returns true
  exactly when the seconds from \<open>t\<close> to the time of the clock, read to the whole second, are
  at most \<open>b\<close>; that is, exactly when the exact time elapsed is less than \<open>b + 1\<close> seconds.
  The boundary is accepted. A timestamp in the future is accepted for every budget that is
  not negative.
\<close>

theorem age_filter_inclusive:
  assumes "valid_datetime t" "valid_datetime (clock w (clock_reads w))"
    and "1000 \<le> dt_year (clock w (clock_reads w))"
  shows "fst (check_for_max_age (canonical_text t) (PInt b) w)
           = Inr (to_seconds (clock w (clock_reads w)) - to_seconds t \<le> b)
         \<and> (fst (check_for_max_age (canonical_text t) (PInt b) w) = Inr True
              \<longleftrightarrow> to_micros (clock w (clock_reads w)) - to_seconds t * 1000000
                    < (b + 1) * 1000000)
         \<and> (to_seconds (clock w (clock_reads w)) - to_seconds t = b
              \<longrightarrow> fst (check_for_max_age (canonical_text t) (PInt b) w) = Inr True)
         \<and> (to_micros (clock w (clock_reads w)) < to_seconds t * 1000000 \<and> 0 \<le> b
              \<longrightarrow> fst (check_for_max_age (canonical_text t) (PInt b) w) = Inr True)"
proof -
  define sn st where "sn = to_seconds (clock w (clock_reads w))" and "st = to_seconds t"
  define u where "u = int (dt_micro (clock w (clock_reads w)))"
  have u: "0 \<le> u" "u < 1000000"
    using assms(2) by (simp_all add: u_def valid_datetime_def)
  have m: "to_micros (clock w (clock_reads w)) = sn * 1000000 + u"
    by (simp add: to_micros_def sn_def u_def)
  have r: "fst (check_for_max_age (canonical_text t) (PInt b) w) = Inr (sn - st \<le> b)"
    using check_for_max_age_canonical [OF assms, of b] by (simp add: sn_def st_def)
  have x: "(sn - st \<le> b) \<longleftrightarrow> (sn * 1000000 + u - st * 1000000 < (b + 1) * 1000000)"
    using u by (rule whole_seconds)
  have f: "sn * 1000000 + u < st * 1000000 \<and> 0 \<le> b \<longrightarrow> sn - st \<le> b"
    using u(1) by (simp add: algebra_simps)
  show ?thesis
    unfolding m r sn_def [symmetric] st_def [symmetric] using x f by simp
qed

theorem age_filter_inclusive_witness:
  "valid_datetime (published 18) \<and> valid_datetime (published 19)
   \<and> valid_datetime (clock (site three_links) (clock_reads (site three_links)))
   \<and> 1000 \<le> dt_year (clock (site three_links) (clock_reads (site three_links)))
   \<and> canonical_text (published 18) = ''2023-07-18T12:13:00.00Z''
   \<and> canonical_text (published 19) = ''2023-07-19T12:13:00.00Z''
   \<and> to_seconds (clock (site three_links) (clock_reads (site three_links)))
        - to_seconds (published 18) = 150
   \<and> fst (check_for_max_age ''2023-07-18T12:13:00.00Z'' (PInt 150) (site three_links)) = Inr True
   \<and> fst (check_for_max_age ''2023-07-18T12:13:00.00Z'' (PInt 149) (site three_links)) = Inr False
   \<and> to_micros (clock (site three_links) (clock_reads (site three_links)))
        < to_seconds (published 19) * 1000000
   \<and> fst (check_for_max_age ''2023-07-19T12:13:00.00Z'' (PInt 0) (site three_links)) = Inr True"
proof -
  have c: "clock (site three_links) (clock_reads (site three_links)) = site_clock 0"
    by (simp add: site_def)
  have m: "to_micros (site_clock 0) < to_seconds (published 19) * 1000000"
    using elapsed_site(3) [of 0] by (simp add: to_micros_def) (simp add: site_clock_def)
  show ?thesis
    using age_filter_inclusive [of "published 18" "site three_links" 150]
      age_filter_inclusive [of "published 18" "site three_links" 149]
      age_filter_inclusive [of "published 19" "site three_links" 0] m
    by (simp add: c valid_published valid_site_clock year_site_clock elapsed_site text_published)
qed

text \<open>
  Claim C6. For a content container whose direct children are a paragraph \<^verbatim>\<open>A\<close>, a
  figure (with any text), a paragraph \<^verbatim>\<open>More on XYZ:\<close> and a paragraph \<^verbatim>\<open>B\<close>, the
  extracted body is \<^verbatim>\<open>A\<close> followed by a newline, and nothing else.
\<close>

theorem body_extraction_example:
  "extract_content
     [\<lparr>el_name = ''p'', el_text = ''A''\<rparr>, \<lparr>el_name = ''figure'', el_text = figure_text\<rparr>,
      \<lparr>el_name = ''p'', el_text = ''More on XYZ:''\<rparr>, \<lparr>el_name = ''p'', el_text = ''B''\<rparr>]
     = ''A'' @ [newline]"
  by (simp add: extract_content_def re_match_def REGEX_PATTERN_def rx_lit_def rx_plus_def
        rx_opt_def is_word_char_def newline_def)

text \<open>
  Claim C7, as stated, fails on an absolute link: the scanner puts the origin of the site in
  front of it as in front of any other, and requests the URL with the origin twice.
\<close>

theorem absolute_href_is_prefixed:
  "requested (snd (request_entries_with_timeout url_main_endpoint (PInt 360) (site absolute_link)))
     = [''https://seekingalpha.com/market-news'',
        ''https://seekingalpha.comhttps://seekingalpha.com/news/1'']"
  by (simp add: request_entries_with_timeout_def parse_entry_for_elements_def http_get_def
        url_main_endpoint_def site_def site_net_def listing_def absolute_link_def article_url_def
        request_content_with_timeout_def request_content_body_def)

text \<open>
  Claim C7, amended. The URL passed to the extractor is always the origin of the site
  followed by the \<^verbatim>\<open>href\<close> of the link, whether the \<^verbatim>\<open>href\<close> is relative or absolute: the
  requests the scanner makes are, in order, those URLs for the links of a prefix of the list.
\<close>

theorem article_url_always_prefixed:
  "\<exists>n\<le>length cards.
     map Some (requested (snd (parse_entry_for_elements cards max_age w)))
       = map Some (requested w)
           @ map (map_option (\<lambda>href. ''https://seekingalpha.com'' @ href)) (take n cards)"
  using parse_entry_loop_requests [of cards max_age w]
  by (simp add: snd_parse_entry_for_elements article_url_def [abs_def])

text \<open>
  Claim C8, as stated, fails on a configuration whose cap on the records is not a number:
  with the cap \<^verbatim>\<open>"2"\<close>, or \<^verbatim>\<open>None\<close>, \<^verbatim>\<open>query\<close> yields the first record and the
  comparison of the count with the cap then raises \<^verbatim>\<open>TypeError\<close> to the caller.
\<close>

theorem query_raises_on_cap_not_a_number:
  "fst (query (PDict [(PStr ''maximum_items_to_collect'', PStr ''2'')]) (site three_links))
     = [fresh_item ''https://seekingalpha.com/news/1'']
   \<and> fst (snd (query (PDict [(PStr ''maximum_items_to_collect'', PStr ''2'')])
                  (site three_links)))
       = Some TypeError
   \<and> fst (snd (query (PDict [(PStr ''maximum_items_to_collect'', PNone)]) (site three_links)))
       = Some TypeError"
  by (simp add: query_def read_parameters_def get_or_default_def DEFAULT_OLDNESS_SECONDS_def
        entries_three_links)

text \<open>
  Claim C8, amended. \<^verbatim>\<open>query\<close> raises nothing whenever the cap on the records is a number
  (an integer or a boolean; the default is one) or no record is yielded, whatever the
  network answers and the pages hold. An exception in the fetch or the extraction of an
  article becomes "no record" in \<^verbatim>\<open>request_content_with_timeout\<close>; and when the listing
  page cannot be fetched the pipeline yields no record and ends without raising, for every
  configuration.
\<close>

theorem query_never_raises:
  "(cap_is_number parameters \<or> fst (query parameters w) = []
      \<longrightarrow> fst (snd (query parameters w)) = None)
   \<and> (\<forall>u max_age w0 w1 e. request_content_body u max_age w0 = (Inl e, w1)
         \<longrightarrow> request_content_with_timeout u max_age w0 = (None, w1))
   \<and> ((\<exists>e. fst (http_get url_main_endpoint w) = Inl e)
         \<longrightarrow> fst (query parameters w) = [] \<and> fst (snd (query parameters w)) = None)"
proof -
  obtain mo cap ml where p: "read_parameters parameters = Inr (mo, cap, ml)"
    using read_parameters_Inr by blast
  obtain recs w_end where s: "request_entries_with_timeout url_main_endpoint mo w = (recs, w_end)"
    by (cases "request_entries_with_timeout url_main_endpoint mo w") auto
  have q: "query parameters w = query_loop cap 0 recs w_end"
    by (simp add: query_def p s)
  have empty: "fst (snd (query parameters w)) = None" if "fst (query parameters w) = []"
  proof (cases recs)
    case Nil
    then show ?thesis by (simp add: q)
  next
    case (Cons r rs)
    with that query_loop_nonempty [of cap 0 r rs w_end] show ?thesis by (simp add: q)
  qed
  have number: "fst (snd (query parameters w)) = None" if "cap_is_number parameters"
  proof -
    from that p obtain n where "int_of cap = Inr n"
      by (auto simp: cap_is_number_def split: sum.splits)
    then show ?thesis using query_loop_raises_nothing [of cap n 0 recs w_end] by (simp add: q)
  qed
  have dead: "fst (query parameters w) = []" if "\<exists>e. fst (http_get url_main_endpoint w) = Inl e"
    using that s
    by (auto simp: q request_entries_with_timeout_def split: prod.splits sum.splits)
  have body: "request_content_with_timeout u max_age w0 = (None, w1)"
    if "request_content_body u max_age w0 = (Inl e, w1)" for u max_age w0 w1 e
    using that by (simp add: request_content_with_timeout_def)
  from empty number dead body show ?thesis by blast
qed

theorem query_never_raises_witness:
  "cap_is_number (PDict [(PStr ''maximum_items_to_collect'', PInt 2)])
   \<and> fst (snd (query (PDict [(PStr ''maximum_items_to_collect'', PInt 2)]) (site three_links)))
       = None
   \<and> fst (http_get url_main_endpoint unreachable) = Inl TransportError
   \<and> fst (query (PDict [(PStr ''maximum_items_to_collect'', PStr ''2'')]) unreachable) = []
   \<and> fst (snd (query (PDict [(PStr ''maximum_items_to_collect'', PStr ''2'')]) unreachable))
       = None
   \<and> fst (request_content_body ''https://seekingalpha.com/news/1'' (PInt 360) unreachable)
       = Inl TransportError
   \<and> fst (request_content_with_timeout ''https://seekingalpha.com/news/1'' (PInt 360) unreachable)
       = None"
proof -
  have c: "cap_is_number (PDict [(PStr ''maximum_items_to_collect'', PInt 2)])"
    by (simp add: cap_is_number_def read_parameters_def get_or_default_def)
  have g: "fst (http_get url_main_endpoint unreachable) = Inl TransportError"
    by (simp add: http_get_def unreachable_def)
  have b: "fst (request_content_body ''https://seekingalpha.com/news/1'' (PInt 360) unreachable)
             = Inl TransportError"
    by (simp add: request_content_body_def http_get_def unreachable_def)
  obtain w1 where b1: "request_content_body ''https://seekingalpha.com/news/1'' (PInt 360)
                         unreachable = (Inl TransportError, w1)"
    using b by (cases "request_content_body ''https://seekingalpha.com/news/1'' (PInt 360)
                         unreachable") simp
  note t = query_never_raises
             [of "PDict [(PStr ''maximum_items_to_collect'', PInt 2)]" "site three_links"]
  from t c have q: "fst (snd (query (PDict [(PStr ''maximum_items_to_collect'', PInt 2)])
                         (site three_links))) = None"
    by blast
  note d = query_never_raises
             [of "PDict [(PStr ''maximum_items_to_collect'', PStr ''2'')]" unreachable]
  from d g have e: "fst (query (PDict [(PStr ''maximum_items_to_collect'', PStr ''2'')])
                         unreachable) = []"
      and n: "fst (snd (query (PDict [(PStr ''maximum_items_to_collect'', PStr ''2'')])
                         unreachable)) = None"
    by blast+
  from d b1 have "request_content_with_timeout ''https://seekingalpha.com/news/1'' (PInt 360)
                    unreachable = (None, w1)"
    by blast
  then have r: "fst (request_content_with_timeout ''https://seekingalpha.com/news/1'' (PInt 360)
                       unreachable) = None"
    by simp
  from c q g e n b r show ?thesis by simp
qed

text \<open>
  Claim C10. A child that is not a figure and whose whole text is \<^verbatim>\<open>More on\<close>, a space and
  one word ends the extraction, with the colon after the word or without it: the body is
  that of the children before it.
\<close>

theorem more_on_without_colon_halts:
  assumes "word \<noteq> []" "list_all is_word_char word" "el_name el \<noteq> ''figure''"
    and "el_text el = ''More on '' @ word \<or> el_text el = ''More on '' @ word @ '':''"
  shows "extract_content (pre @ el # post) = extract_content pre"
proof -
  have "matches REGEX_PATTERN (el_text el)"
    using assms(4) more_on_word_matches [OF assms(1,2), of "[]"]
      more_on_word_matches [OF assms(1,2), of "'':''"]
    by auto
  moreover have "el_text el \<noteq> []" using assms(4) by auto
  ultimately have "content_loop (el # post) acc = acc" for acc
    using assms(3) by (simp add: re_match_def)
  then show ?thesis
    unfolding extract_content_def by (rule content_loop_halt)
qed

theorem more_on_without_colon_halts_witness:
  "''XYZ'' \<noteq> [] \<and> list_all is_word_char ''XYZ''
   \<and> extract_content
       ([\<lparr>el_name = ''p'', el_text = ''A''\<rparr>] @ \<lparr>el_name = ''p'', el_text = ''More on XYZ''\<rparr>
          # [\<lparr>el_name = ''p'', el_text = ''B''\<rparr>])
       = extract_content [\<lparr>el_name = ''p'', el_text = ''A''\<rparr>]
   \<and> extract_content [\<lparr>el_name = ''p'', el_text = ''A''\<rparr>] = ''A'' @ [newline]"
proof -
  have w: "list_all is_word_char ''XYZ''" by (simp add: is_word_char_def)
  have e: "extract_content [\<lparr>el_name = ''p'', el_text = ''A''\<rparr>] = ''A'' @ [newline]"
    by (simp add: extract_content_def re_match_def REGEX_PATTERN_def rx_lit_def rx_plus_def
          rx_opt_def newline_def)
  from more_on_without_colon_halts
         [of "''XYZ''" "\<lparr>el_name = ''p'', el_text = ''More on XYZ''\<rparr>"
             "[\<lparr>el_name = ''p'', el_text = ''A''\<rparr>]" "[\<lparr>el_name = ''p'', el_text = ''B''\<rparr>]"] w e
  show ?thesis by simp
qed

text \<open>
  Claim C9. \<^verbatim>\<open>read_parameters\<close> returns on every argument and never raises. On an
  argument that is \<^verbatim>\<open>None\<close>, empty (falsy) or not a dictionary it returns the default
  triple (360, 25, 10). On a dictionary it returns, for each of the three keys, the value
  stored under the key when the key is present and the default otherwise.
\<close>

theorem read_parameters_total:
  "(\<exists>r. read_parameters p = Inr r)
   \<and> ((p = PNone \<or> \<not> truthy p \<or> \<not> is_dict p)
        \<longrightarrow> read_parameters p = Inr (PInt 360, PInt 25, PInt 10))
   \<and> (\<forall>kvs. p = PDict kvs \<longrightarrow>
        read_parameters p =
          Inr (value_or kvs ''max_oldness_seconds'' (PInt 360),
               value_or kvs ''maximum_items_to_collect'' (PInt 25),
               value_or kvs ''min_post_length'' (PInt 10)))"
proof (intro conjI)
  show "\<exists>r. read_parameters p = Inr r"
  proof (cases p)
    case (PDict kvs)
    then show ?thesis by (simp add: read_parameters_dict)
  qed (simp_all add: read_parameters_other)
  show "(p = PNone \<or> \<not> truthy p \<or> \<not> is_dict p)
          \<longrightarrow> read_parameters p = Inr (PInt 360, PInt 25, PInt 10)"
    by (auto simp: read_parameters_other)
  show "\<forall>kvs. p = PDict kvs \<longrightarrow>
          read_parameters p =
            Inr (value_or kvs ''max_oldness_seconds'' (PInt 360),
                 value_or kvs ''maximum_items_to_collect'' (PInt 25),
                 value_or kvs ''min_post_length'' (PInt 10))"
    by (simp add: read_parameters_dict)
qed

theorem read_parameters_total_witness:
  "read_parameters (PDict [(PStr ''maximum_items_to_collect'', PInt 2)])
     = Inr (PInt 360, PInt 2, PInt 10)
   \<and> read_parameters (PDict []) = Inr (PInt 360, PInt 25, PInt 10)
   \<and> read_parameters (PList [PInt 1]) = Inr (PInt 360, PInt 25, PInt 10)
   \<and> read_parameters PNone = Inr (PInt 360, PInt 25, PInt 10)"
  using read_parameters_total [of "PDict [(PStr ''maximum_items_to_collect'', PInt 2)]"]
        read_parameters_total [of "PDict []"]
        read_parameters_total [of "PList [PInt 1]"]
        read_parameters_total [of PNone]
  by (simp add: value_or_def)

end
